theory Spec2Isabelle
  imports Complex_Main
begin

section \<open>A six-station manufacturing line (Castillo3.py)\<close>

text \<open>
  The program is a discrete-event simulation written against the simpy kernel: every
  product is a generator that runs from one \<^verbatim>\<open>yield\<close> to the next without
  interruption and is resumed by the kernel later. The embedding keeps exactly this
  granularity: one transition of the model is one uninterrupted segment of source code
  between two suspension points. Which suspended process the kernel resumes next, and what
  the random number generator returns, are inputs of a transition (a \<open>label\<close>); the kernel's
  own choice is one of the choices the model allows, so a property proved for every
  sequence of labels holds for every run of the program.

  Python's floats are read as real numbers and Python's unbounded integers as \<open>int\<close>.
\<close>

subsection \<open>The shared resource primitive\<close>

text \<open>
  Modelled from the spec: \<^verbatim>\<open>simpy.Resource\<close> is a class of the simulation library, not of
  Castillo3.py, which only constructs it (lines 19 and 97), requests it (lines 23 and 45)
  and reads the length of its wait queue (lines 73 and 74). Section 4.2 of the
  specification gives its contract: a capacity, the entities currently holding a slot, a
  FIFO queue of waiting requests; \<^verbatim>\<open>acquire\<close> grants a slot if one is free and queues the
  caller otherwise; \<^verbatim>\<open>release\<close> returns the slot and grants it to the head of the queue in
  the same step. A request is identified by the product on whose behalf it is made.
\<close>

record Resource =
  capacity :: nat
  users :: "nat list"
  queue :: "nat list"

definition request :: "nat \<Rightarrow> Resource \<Rightarrow> Resource" where
  "request p r =
     (if length (users r) < capacity r then r\<lparr>users := users r @ [p]\<rparr>
      else r\<lparr>queue := queue r @ [p]\<rparr>)"

definition release :: "nat \<Rightarrow> Resource \<Rightarrow> Resource" where
  "release p r =
     (let us = remove1 p (users r) in
      case queue r of
        [] \<Rightarrow> r\<lparr>users := us\<rparr>
      | q # qs \<Rightarrow>
          if length us < capacity r then r\<lparr>users := us @ [q], queue := qs\<rparr>
          else r\<lparr>users := us\<rparr>)"

subsection \<open>Data\<close>

text \<open>
  \<^verbatim>\<open>WorkStation\<close> (lines 6-19). The fields that never change after construction are
  constants of the model: the station's identity is its index in \<open>stations\<close>, the failure
  probability is a table lookup, the mean repair time is the parameter of a draw.
\<close>

record WorkStation =
  raw_material :: int
  processed_count :: int
  resource :: Resource

definition failure_table :: "real list" where
  "failure_table = [2 / 100, 1 / 100, 5 / 100, 15 / 100, 7 / 100, 6 / 100]"

definition failure_probability :: "nat \<Rightarrow> real" where
  "failure_probability station_id = failure_table ! station_id"

definition fix_time_rate :: real where
  "fix_time_rate = 1 / 3"

definition new_station :: WorkStation where
  "new_station =
     \<lparr>raw_material = 25, processed_count = 0,
      resource = \<lparr>capacity = 1, users = [], queue = []\<rparr>\<rparr>"

text \<open>
  The statistics dictionary (lines 98-106). Its keys are fixed, so it is a record; the
  three inner dictionaries have the keys \<open>0..5\<close> from construction on and are read and
  written at those keys only, so they are functions of the station id.
\<close>

record Stats =
  productos_completados :: int
  productos_rechazados :: int
  ocupacion_estaciones :: "nat \<Rightarrow> real"
  fallos_estaciones :: "nat \<Rightarrow> int"
  esperas_reabastecimiento :: "nat \<Rightarrow> int"
  tiempos_reparacion :: "real list"
  uso_dispositivo_suministro :: real

definition new_stats :: Stats where
  "new_stats =
     \<lparr>productos_completados = 0, productos_rechazados = 0,
      ocupacion_estaciones = (\<lambda>i. 0), fallos_estaciones = (\<lambda>i. 0),
      esperas_reabastecimiento = (\<lambda>i. 0), tiempos_reparacion = [],
      uso_dispositivo_suministro = 0\<rparr>"

text \<open>
  Where a product is suspended. \<^verbatim>\<open>yield self.env.process(g)\<close> creates a process for the
  generator \<open>g\<close> and suspends the caller until \<open>g\<close> has ended; the kernel starts \<open>g\<close> and
  resumes the caller in steps of their own. A product is therefore at one of these points:
  \<^item> \<open>Init\<close>: \<^verbatim>\<open>Product.process\<close> has been created (line 61) and has not run yet;
  \<^item> \<open>Call j\<close>: \<^verbatim>\<open>station.process\<close> of station \<open>j\<close> has been created (lines 68, 84);
  \<^item> \<open>Req j\<close>: at \<^verbatim>\<open>yield req\<close> of line 24;
  \<^item> \<open>CallRestock j\<close>: \<^verbatim>\<open>restock\<close> has been created (line 28);
  \<^item> \<open>ReqPool j\<close>: at \<^verbatim>\<open>yield req\<close> of line 46;
  \<^item> \<open>Restock j t\<close>: at the timeout of line 49, which fires at time \<open>t\<close>;
  \<^item> \<open>RestockRet j\<close>: \<^verbatim>\<open>restock\<close> has ended, line 28 waits to be resumed;
  \<^item> \<open>Work j t0 d\<close>: at the timeout of line 32, begun at time \<open>t0\<close> and lasting \<open>d\<close>;
  \<^item> \<open>Repair j t\<close>: at the timeout of line 41, which fires at time \<open>t\<close>;
  \<^item> \<open>Ret j\<close>: \<^verbatim>\<open>station.process\<close> has ended, line 68 or 84 waits to be resumed;
  \<^item> \<open>Done\<close>: \<^verbatim>\<open>Product.process\<close> has ended.
\<close>

datatype ppc =
    Init
  | Call nat
  | Req nat
  | CallRestock nat
  | ReqPool nat
  | Restock nat real
  | RestockRet nat
  | Work nat real real
  | Repair nat real
  | Ret nat
  | Done

text \<open>\<^verbatim>\<open>Product\<close> (lines 52-61), with the point at which its process is suspended.\<close>

record Product =
  stage :: nat
  completed_stations :: "nat set"
  pc :: ppc

definition new_product :: Product where
  "new_product = \<lparr>stage = 0, completed_stations = {}, pc = Init\<rparr>"

text \<open>
  The arrival process \<^verbatim>\<open>generate_products\<close> (lines 111-116): created and not yet run, or
  suspended at the timeout of line 114 that fires at the given time.
\<close>

datatype gen_pc = GenStart | GenWait real

text \<open>
  \<^verbatim>\<open>ManufacturingPlant\<close> (lines 93-109) together with the clock of its environment and the
  products created so far, by identity.
\<close>

record Plant =
  now :: real
  stations :: "nat \<Rightarrow> WorkStation"
  restockers :: Resource
  stats :: Stats
  product_count :: nat
  arrivals :: gen_pc
  products :: "nat \<rightharpoonup> Product"

definition new_plant :: Plant where
  "new_plant =
     \<lparr>now = 0, stations = (\<lambda>i. new_station),
      restockers = \<lparr>capacity = 3, users = [], queue = []\<rparr>,
      stats = new_stats, product_count = 0, arrivals = GenStart, products = Map.empty\<rparr>"

text \<open>The run stops at this time (line 140); the report divides by the same literal.\<close>

definition horizon :: real where
  "horizon = 5000"

subsection \<open>The processes, segment by segment\<close>

definition set_pc :: "nat \<Rightarrow> ppc \<Rightarrow> Plant \<Rightarrow> Plant" where
  "set_pc p c s =
     s\<lparr>products := (products s)(p := map_option (\<lambda>P. P\<lparr>pc := c\<rparr>) (products s p))\<rparr>"

definition upd_station :: "nat \<Rightarrow> (WorkStation \<Rightarrow> WorkStation) \<Rightarrow> Plant \<Rightarrow> Plant" where
  "upd_station j f s = s\<lparr>stations := (stations s)(j := f (stations s j))\<rparr>"

definition upd_stats :: "(Stats \<Rightarrow> Stats) \<Rightarrow> Plant \<Rightarrow> Plant" where
  "upd_stats f s = s\<lparr>stats := f (stats s)\<rparr>"

text \<open>
  Lines 25-32, entered with the station's resource held: either one turn of the loop up
  to the creation of the restock process, or the loop's exit, the consumption of one unit
  and the start of the processing delay. \<open>x\<close> is what \<^verbatim>\<open>random.normalvariate(4, 1)\<close>
  returns.
\<close>

definition station_body :: "nat \<Rightarrow> nat \<Rightarrow> real \<Rightarrow> Plant \<Rightarrow> Plant" where
  "station_body p j x s =
     (if raw_material (stations s j) \<le> 0 then
        set_pc p (CallRestock j)
          (upd_stats (\<lambda>st. st\<lparr>esperas_reabastecimiento :=
             (esperas_reabastecimiento st)(j := esperas_reabastecimiento st j + 1)\<rparr>) s)
      else
        let process_time = max 0 x in
        set_pc p (Work j (now s) process_time)
          (upd_station j (\<lambda>w. w\<lparr>raw_material := raw_material w - 1\<rparr>) s))"

text \<open>
  Lines 33-41, entered when the processing delay has elapsed. \<open>u\<close> is what
  \<^verbatim>\<open>random.random()\<close> returns and \<open>r\<close> what \<^verbatim>\<open>random.expovariate(1/3)\<close> returns; Python
  evaluates them only where the model reads them. Leaving the \<^verbatim>\<open>with\<close> block releases
  the station's resource.
\<close>

definition station_finish :: "nat \<Rightarrow> nat \<Rightarrow> real \<Rightarrow> real \<Rightarrow> real \<Rightarrow> Plant \<Rightarrow> Plant" where
  "station_finish p j process_time u r s =
     (let s1 = upd_station j (\<lambda>w. w\<lparr>processed_count := processed_count w + 1\<rparr>) s;
          s2 = upd_stats (\<lambda>st. st\<lparr>ocupacion_estaciones :=
                 (ocupacion_estaciones st)(j := ocupacion_estaciones st j + process_time)\<rparr>) s1
      in
      if processed_count (stations s2 j) mod 5 = 0 \<and> u < failure_probability j then
        set_pc p (Repair j (now s2 + r))
          (upd_stats (\<lambda>st. st\<lparr>fallos_estaciones :=
                 (fallos_estaciones st)(j := fallos_estaciones st j + 1),
               tiempos_reparacion := tiempos_reparacion st @ [r]\<rparr>) s2)
      else
        set_pc p (Ret j) (upd_station j (\<lambda>w. w\<lparr>resource := release p (resource w)\<rparr>) s2))"

text \<open>Lines 76-81: the station a product in the branch phase goes to next.\<close>

definition select_station :: "nat set \<Rightarrow> nat \<Rightarrow> nat \<Rightarrow> nat" where
  "select_station completed station4_queue station5_queue =
     (if 4 \<notin> completed \<and> 5 \<notin> completed then
        (if station4_queue \<le> station5_queue then 4 else 5)
      else if 4 \<notin> completed then 4
      else 5)"

text \<open>
  The head of the loop of \<^verbatim>\<open>Product.process\<close> (lines 65-84) up to its next suspension:
  the test of line 65, the choice of the station and the creation of its process. With
  fewer than six completed stations and a stage above 4 the source loops without ever
  suspending; the model has no successor state there.
\<close>

definition product_loop :: "nat \<Rightarrow> Product \<Rightarrow> Plant \<Rightarrow> Plant option" where
  "product_loop p P s =
     (if card (completed_stations P) < 6 then
        if stage P < 4 then
          Some (s\<lparr>products := (products s)(p \<mapsto> P\<lparr>pc := Call (stage P)\<rparr>)\<rparr>)
        else if stage P = 4 then
          let station4_queue = length (queue (resource (stations s 4)));
              station5_queue = length (queue (resource (stations s 5)));
              station_id = select_station (completed_stations P) station4_queue station5_queue
          in Some (s\<lparr>products := (products s)(p \<mapsto> P\<lparr>pc := Call station_id\<rparr>)\<rparr>)
        else None
      else Some (s\<lparr>products := (products s)(p \<mapsto> P\<lparr>pc := Done\<rparr>)\<rparr>))"

text \<open>
  The rest of the loop body once the station's process has ended: lines 69-70 in the
  sequential phase, lines 85-91 in the branch phase, then the loop's head again. \<open>u\<close> is
  what \<^verbatim>\<open>random.random()\<close> returns at line 88.
\<close>

definition product_return :: "nat \<Rightarrow> Product \<Rightarrow> nat \<Rightarrow> real \<Rightarrow> Plant \<Rightarrow> Plant option" where
  "product_return p P station_id u s =
     (if stage P < 4 then
        product_loop p
          (P\<lparr>completed_stations := insert (stage P) (completed_stations P),
             stage := stage P + 1\<rparr>) s
      else
        let P' = P\<lparr>completed_stations := insert station_id (completed_stations P)\<rparr> in
        if card (completed_stations P') = 6 then
          if u < 5 / 100 then
            product_loop p P'
              (upd_stats (\<lambda>st. st\<lparr>productos_rechazados := productos_rechazados st + 1\<rparr>) s)
          else
            product_loop p P'
              (upd_stats (\<lambda>st. st\<lparr>productos_completados := productos_completados st + 1\<rparr>) s)
        else product_loop p P' s)"

text \<open>
  A timeout fires when the clock reaches its time; the run of line 140 handles the events
  before the horizon only.
\<close>

definition fires :: "real \<Rightarrow> Plant \<Rightarrow> bool" where
  "fires t s \<longleftrightarrow> now s \<le> t \<and> t < horizon"

text \<open>What \<^verbatim>\<open>random.random()\<close> and \<^verbatim>\<open>random.expovariate\<close> can return.\<close>

definition uniform_draw :: "real \<Rightarrow> bool" where
  "uniform_draw u \<longleftrightarrow> 0 \<le> u \<and> u < 1"

definition expo_draw :: "real \<Rightarrow> bool" where
  "expo_draw r \<longleftrightarrow> 0 \<le> r"

text \<open>
  Resuming product \<open>p\<close>, whose record is \<open>P\<close>, with the draws \<open>x\<close> and \<open>y\<close> at hand: the
  segment of code that runs, by the point at which the product was suspended. A product
  waiting for a resource is resumed only once it is among the holders; a product waiting
  for a timeout only when the timeout fires, which moves the clock.
\<close>

definition resume :: "nat \<Rightarrow> Product \<Rightarrow> real \<Rightarrow> real \<Rightarrow> Plant \<Rightarrow> Plant option" where
  "resume p P x y s =
     (case pc P of
        Init \<Rightarrow> product_loop p P s
      | Call j \<Rightarrow>
          Some (set_pc p (Req j)
            (upd_station j (\<lambda>w. w\<lparr>resource := request p (resource w)\<rparr>) s))
      | Req j \<Rightarrow>
          if p \<in> set (users (resource (stations s j))) then Some (station_body p j x s)
          else None
      | CallRestock j \<Rightarrow>
          Some (set_pc p (ReqPool j) (s\<lparr>restockers := request p (restockers s)\<rparr>))
      | ReqPool j \<Rightarrow>
          if p \<in> set (users (restockers s)) then
            let restock_time = max 0 x in
            Some (set_pc p (Restock j (now s + restock_time))
              (upd_stats (\<lambda>st. st\<lparr>uso_dispositivo_suministro :=
                 uso_dispositivo_suministro st + restock_time\<rparr>) s))
          else None
      | Restock j t \<Rightarrow>
          if fires t s then
            Some (set_pc p (RestockRet j)
              (upd_station j (\<lambda>w. w\<lparr>raw_material := 25\<rparr>)
                (s\<lparr>now := t, restockers := release p (restockers s)\<rparr>)))
          else None
      | RestockRet j \<Rightarrow> Some (station_body p j x s)
      | Work j t0 d \<Rightarrow>
          if fires (t0 + d) s \<and> uniform_draw x \<and> expo_draw y then
            Some (station_finish p j d x y (s\<lparr>now := t0 + d\<rparr>))
          else None
      | Repair j t \<Rightarrow>
          if fires t s then
            Some (set_pc p (Ret j)
              (upd_station j (\<lambda>w. w\<lparr>resource := release p (resource w)\<rparr>) (s\<lparr>now := t\<rparr>)))
          else None
      | Ret j \<Rightarrow> if uniform_draw x then product_return p P j x s else None
      | Done \<Rightarrow> None)"

text \<open>
  A transition is the arrival process running one segment (lines 113-116; \<open>d\<close> is the
  inter-arrival time \<^verbatim>\<open>random.expovariate(1/3)\<close> it draws before suspending again), or a
  product running one segment.
\<close>

datatype label = Arrive real | Resume nat real real

fun step :: "label \<Rightarrow> Plant \<Rightarrow> Plant option" where
  "step (Arrive d) s =
     (if \<not> expo_draw d then None
      else case arrivals s of
        GenStart \<Rightarrow> Some (s\<lparr>arrivals := GenWait (now s + d)\<rparr>)
      | GenWait t \<Rightarrow>
          if fires t s then
            Some (s\<lparr>now := t, product_count := product_count s + 1,
                    products := (products s)(product_count s + 1 \<mapsto> new_product),
                    arrivals := GenWait (t + d)\<rparr>)
          else None)"
| "step (Resume p x y) s =
     (case products s p of None \<Rightarrow> None | Some P \<Rightarrow> resume p P x y s)"

fun run :: "label list \<Rightarrow> Plant \<Rightarrow> Plant option" where
  "run [] s = Some s"
| "run (l # ls) s = (case step l s of None \<Rightarrow> None | Some s' \<Rightarrow> run ls s')"

subsection \<open>The report of one replication\<close>

text \<open>
  Lines 143-163. Python's \<^verbatim>\<open>/\<close> raises \<^verbatim>\<open>ZeroDivisionError\<close> on a zero divisor, so
  every division of the report is a computation that may fail; the conditional
  expressions of lines 145, 148 and 160 evaluate the division only when their condition
  is true.
\<close>

datatype error = ZeroDivisionError

definition truediv :: "real \<Rightarrow> real \<Rightarrow> error + real" where
  "truediv a b = (if b = 0 then Inl ZeroDivisionError else Inr (a / b))"

definition and_then :: "error + 'a \<Rightarrow> ('a \<Rightarrow> error + 'b) \<Rightarrow> error + 'b" where
  "and_then m f = (case m of Inl e \<Rightarrow> Inl e | Inr v \<Rightarrow> f v)"

fun collect :: "(error + 'a) list \<Rightarrow> error + 'a list" where
  "collect [] = Inr []"
| "collect (m # ms) = and_then m (\<lambda>v. and_then (collect ms) (\<lambda>vs. Inr (v # vs)))"

text \<open>The row appended to the sheet (lines 154-163), one field per group of columns.\<close>

record Row =
  produccion_final :: int
  ocupacion_est :: "real list"
  inactividad_est :: "real list"
  tiempo_inactividad_fallos :: real
  ocupacion_dispositivo :: real
  tiempo_promedio_reparacion :: real
  retraso_promedio_cuellos :: real
  tasa_defectuosos :: real

definition tasa_productos_defectuosos :: "Stats \<Rightarrow> error + real" where
  "tasa_productos_defectuosos st =
     (if productos_completados st \<noteq> 0 then
        truediv (of_int (productos_rechazados st)) (of_int (productos_completados st))
      else Inr 0)"

definition total_esperas :: "Stats \<Rightarrow> int" where
  "total_esperas st = sum_list (map (esperas_reabastecimiento st) [0..<6])"

definition retraso_promedio :: "Stats \<Rightarrow> error + real" where
  "retraso_promedio st =
     (if total_esperas st \<noteq> 0 then
        truediv (uso_dispositivo_suministro st) (of_int (total_esperas st))
      else Inr 0)"

definition tiempo_total_reparaciones :: "Stats \<Rightarrow> real" where
  "tiempo_total_reparaciones st = sum_list (tiempos_reparacion st)"

definition reparacion_promedio :: "Stats \<Rightarrow> error + real" where
  "reparacion_promedio st =
     (if tiempos_reparacion st \<noteq> [] then
        truediv (tiempo_total_reparaciones st) (of_nat (length (tiempos_reparacion st)))
      else Inr 0)"

definition results_row :: "Stats \<Rightarrow> error + Row" where
  "results_row st =
     and_then (tasa_productos_defectuosos st) (\<lambda>tasa.
     and_then (retraso_promedio st) (\<lambda>retraso.
     and_then (collect (map (\<lambda>i. truediv (ocupacion_estaciones st i) 5000) [0..<6])) (\<lambda>ocupacion.
     and_then (truediv (uso_dispositivo_suministro st) 5000) (\<lambda>dispositivo.
     and_then (reparacion_promedio st) (\<lambda>reparacion.
       Inr \<lparr>produccion_final = productos_completados st,
            ocupacion_est = ocupacion,
            inactividad_est = map (\<lambda>i. 5000 - ocupacion_estaciones st i) [0..<6],
            tiempo_inactividad_fallos = tiempo_total_reparaciones st,
            ocupacion_dispositivo = dispositivo,
            tiempo_promedio_reparacion = reparacion,
            retraso_promedio_cuellos = retraso,
            tasa_defectuosos = tasa\<rparr>)))))"

subsection \<open>Invariants and sample runs\<close>

text \<open>Every resource has the capacity it was built with and no more holders than that.\<close>

definition res_ok :: "Plant \<Rightarrow> bool" where
  "res_ok s \<longleftrightarrow>
     (\<forall>j. capacity (resource (stations s j)) = 1 \<and>
          length (users (resource (stations s j))) \<le> 1) \<and>
     capacity (restockers s) = 3 \<and> length (users (restockers s)) \<le> 3"

text \<open>
  Sample runs. \<open>visit p x\<close> takes product \<open>p\<close> from the creation of a station's process
  to the head of the product's loop again, with \<open>x\<close> drawn for the processing time and no
  failure; \<open>arrive_and_hold\<close> is the first product arriving at time 1 and taking station 0.
\<close>

definition visit :: "nat \<Rightarrow> real \<Rightarrow> label list" where
  "visit p x = [Resume p 0 0, Resume p x 0, Resume p (1 / 2) 0, Resume p (1 / 2) 0]"

definition arrive_and_hold :: "label list" where
  "arrive_and_hold = [Arrive 1, Arrive 1, Resume 1 0 0, Resume 1 0 0]"

text \<open>
  The transition is the one in which a restock of station \<open>j\<close> finishes its delay: a
  product suspended at the timeout of line 49 for station \<open>j\<close> is resumed when that
  timeout fires, and runs line 50.
\<close>

definition restock_completes :: "label \<Rightarrow> Plant \<Rightarrow> nat \<Rightarrow> bool" where
  "restock_completes l s j \<longleftrightarrow>
     (case l of
        Arrive d \<Rightarrow> False
      | Resume p x y \<Rightarrow>
          (case products s p of
             None \<Rightarrow> False
           | Some P \<Rightarrow> (case pc P of Restock i t \<Rightarrow> i = j \<and> fires t s | _ \<Rightarrow> False)))"

text \<open>The stock of every station is between 0 and 25.\<close>

definition raw_ok :: "Plant \<Rightarrow> bool" where
  "raw_ok s \<longleftrightarrow> (\<forall>j. 0 \<le> raw_material (stations s j) \<and> raw_material (stations s j) \<le> 25)"

text \<open>
  A run that empties the stock of station 0. The first product arrives at time 4900 and
  the others one time unit apart; each is processed by station 0 in no time (the draw for
  the processing time is 0) and goes on to station 1, where the first product's
  processing outlasts the horizon and the others queue. The 26th product finds station 0
  without stock, starts a restock and holds a slot of the pool, about to draw the
  restock time.
\<close>

definition first_visit :: "nat \<Rightarrow> label list" where
  "first_visit p =
     [Resume p 0 0, Resume p 0 0, Resume p 0 0, Resume p (1 / 2) 0, Resume p (1 / 2) 0,
      Resume p 0 0]"

definition drain :: "label list" where
  "drain =
     [Arrive 4900, Arrive 1] @ first_visit 1 @ [Resume 1 200 0] @
     concat (map (\<lambda>p. Arrive 1 # first_visit p) [2..<26]) @
     [Arrive 1, Resume 26 0 0, Resume 26 0 0, Resume 26 0 0, Resume 26 0 0]"

text \<open>
  The transition is one in which the failure check of line 37 succeeds for station \<open>j\<close>:
  a product whose processing delay at station \<open>j\<close> has elapsed is resumed, the processed
  count it has just incremented is a multiple of 5, and the draw \<open>u\<close> of
  \<^verbatim>\<open>random.random()\<close> is below the station's failure probability.
\<close>

definition failure_check :: "label \<Rightarrow> Plant \<Rightarrow> nat \<Rightarrow> bool" where
  "failure_check l s j \<longleftrightarrow>
     (case l of
        Arrive d \<Rightarrow> False
      | Resume p u r \<Rightarrow>
          (case products s p of
             None \<Rightarrow> False
           | Some P \<Rightarrow>
               (case pc P of
                  Work i t0 d \<Rightarrow>
                    i = j \<and> (processed_count (stations s j) + 1) mod 5 = 0 \<and>
                    u < failure_probability j
                | _ \<Rightarrow> False)))"

text \<open>
  Four products pass station 0; the fifth is at the end of its processing delay there,
  so the next completion is the fifth.
\<close>

definition fifth_visit :: "label list" where
  "fifth_visit =
     [Arrive 4900, Arrive 1] @ first_visit 1 @ [Resume 1 200 0] @
     concat (map (\<lambda>p. Arrive 1 # first_visit p) [2..<5]) @
     [Arrive 1, Resume 5 0 0, Resume 5 0 0, Resume 5 0 0]"

text \<open>The station whose process a suspended product is inside, if any.\<close>

fun station_of :: "ppc \<Rightarrow> nat option" where
  "station_of Init = None"
| "station_of (Call j) = Some j"
| "station_of (Req j) = Some j"
| "station_of (CallRestock j) = Some j"
| "station_of (ReqPool j) = Some j"
| "station_of (Restock j t) = Some j"
| "station_of (RestockRet j) = Some j"
| "station_of (Work j t0 d) = Some j"
| "station_of (Repair j t) = Some j"
| "station_of (Ret j) = Some j"
| "station_of Done = None"

text \<open>
  Where a product with the given stage and completed set may be. In the sequential phase
  it is at the station of its stage and has completed exactly the stations before it; in
  the branch phase it is at station 4 or 5, has completed stations 0 to 3 and possibly
  the other of the two, not the one it is at.
\<close>

definition route_ok :: "nat \<Rightarrow> nat set \<Rightarrow> nat \<Rightarrow> bool" where
  "route_ok st cs j \<longleftrightarrow>
     st < 4 \<and> j = st \<and> cs = {..<st} \<or>
     st = 4 \<and> (j = 4 \<and> (cs = {0, 1, 2, 3} \<or> cs = {0, 1, 2, 3, 5}) \<or>
               j = 5 \<and> (cs = {0, 1, 2, 3} \<or> cs = {0, 1, 2, 3, 4}))"

definition product_ok :: "Product \<Rightarrow> bool" where
  "product_ok P \<longleftrightarrow>
     (case station_of (pc P) of
        Some j \<Rightarrow> route_ok (stage P) (completed_stations P) j
      | None \<Rightarrow>
          if pc P = Init then stage P = 0 \<and> completed_stations P = {}
          else stage P = 4 \<and> completed_stations P = {0, 1, 2, 3, 4, 5})"

text \<open>
  Every product is where its stage and completed set allow, and the products that exist
  are those numbered from 1 to the product count.
\<close>

definition products_ok :: "Plant \<Rightarrow> bool" where
  "products_ok s \<longleftrightarrow>
     (\<forall>p P. products s p = Some P \<longrightarrow> product_ok P) \<and>
     (\<forall>p. products s p \<noteq> None \<longleftrightarrow> 1 \<le> p \<and> p \<le> product_count s)"

text \<open>
  The products with all six station ids in their completed set, and the transitions in
  which the product that runs gets there.
\<close>

definition terminal :: "Plant \<Rightarrow> nat set" where
  "terminal s = {p. \<exists>P. products s p = Some P \<and> card (completed_stations P) = 6}"

definition completes_all :: "label \<Rightarrow> Plant \<Rightarrow> Plant \<Rightarrow> bool" where
  "completes_all l s s' \<longleftrightarrow>
     (case l of
        Arrive d \<Rightarrow> False
      | Resume p u y \<Rightarrow>
          (case (products s p, products s' p) of
             (Some P, Some P') \<Rightarrow>
               card (completed_stations P) < 6 \<and> card (completed_stations P') = 6
           | _ \<Rightarrow> False))"

text \<open>The draw of line 88 in a transition of a product.\<close>

definition rejection_draw :: "label \<Rightarrow> bool" where
  "rejection_draw l \<longleftrightarrow> (case l of Arrive d \<Rightarrow> False | Resume p u y \<Rightarrow> u < 5 / 100)"

definition counters_ok :: "Plant \<Rightarrow> bool" where
  "counters_ok s \<longleftrightarrow>
     0 \<le> productos_completados (stats s) \<and> 0 \<le> productos_rechazados (stats s) \<and>
     productos_completados (stats s) + productos_rechazados (stats s) = int (card (terminal s))"

text \<open>The stages and completed sets with which the head of the product's loop is entered.\<close>

definition loop_ok :: "nat \<Rightarrow> nat set \<Rightarrow> bool" where
  "loop_ok st cs \<longleftrightarrow>
     st < 4 \<and> cs = {..<st} \<or>
     st = 4 \<and> (cs = {0, 1, 2, 3} \<or> cs = {0, 1, 2, 3, 4} \<or> cs = {0, 1, 2, 3, 5} \<or>
               cs = {0, 1, 2, 3, 4, 5})"

text \<open>
  What one segment of product \<open>p\<close> does to the product and to the two counters: the
  product stays where its stage and completed set allow, and either its completed set
  and the counters are unchanged, or the set stays below six ids and the counters are
  unchanged, or the set reaches six ids and exactly one counter grows by one, chosen by
  the draw \<open>u\<close>.
\<close>

definition effect :: "nat \<Rightarrow> Product \<Rightarrow> real \<Rightarrow> Plant \<Rightarrow> Plant \<Rightarrow> bool" where
  "effect p P u s s' \<longleftrightarrow>
     (\<exists>P'. products s' = (products s)(p \<mapsto> P') \<and> product_ok P' \<and>
        product_count s' = product_count s \<and>
        (completed_stations P' = completed_stations P \<and>
           productos_completados (stats s') = productos_completados (stats s) \<and>
           productos_rechazados (stats s') = productos_rechazados (stats s) \<or>
         card (completed_stations P) < 6 \<and> card (completed_stations P') < 6 \<and>
           productos_completados (stats s') = productos_completados (stats s) \<and>
           productos_rechazados (stats s') = productos_rechazados (stats s) \<or>
         card (completed_stations P) < 6 \<and> card (completed_stations P') = 6 \<and>
           (if u < 5 / 100 then
              productos_rechazados (stats s') = productos_rechazados (stats s) + 1 \<and>
              productos_completados (stats s') = productos_completados (stats s)
            else
              productos_completados (stats s') = productos_completados (stats s) + 1 \<and>
              productos_rechazados (stats s') = productos_rechazados (stats s))))"

text \<open>
  Three products pass the whole line one after the other, each station taking 4 time
  units: they arrive at times 1, 31 and 61, and the arrival after them falls beyond the
  horizon. \<open>whole p\<close> takes product \<open>p\<close> from its start to the end of its sixth
  station's process; the segment after it draws for the rejection. The first two products
  are rejected (draw 0); \<open>two_rejected\<close> stops before the third product's draw, and
  \<open>three_products\<close> completes it with the draw 1/2.
\<close>

definition whole :: "nat \<Rightarrow> label list" where
  "whole p =
     [Resume p 0 0] @ visit p 4 @ visit p 4 @ visit p 4 @ visit p 4 @ visit p 4 @
     [Resume p 0 0, Resume p 4 0, Resume p (1 / 2) 0]"

definition two_rejected :: "label list" where
  "two_rejected =
     [Arrive 1, Arrive 30] @ whole 1 @ [Resume 1 0 0, Arrive 30] @ whole 2 @
     [Resume 2 0 0, Arrive 5000] @ whole 3"

definition three_products :: "label list" where
  "three_products = two_rejected @ [Resume 3 (1 / 2) 0]"

text \<open>
  Where a product is with respect to the two \<^verbatim>\<open>with\<close> blocks. It is inside the block of
  \<^verbatim>\<open>WorkStation.process\<close> of station \<open>j\<close> from the request of line 23 until the block is
  left, and it has been resumed there with the resource held from line 25 on; it is inside
  the block of \<^verbatim>\<open>restock\<close> from the request of line 45 until that block is left, and
  has been resumed there with a slot of the pool held at the timeout of line 49.
\<close>

fun in_process :: "ppc \<Rightarrow> nat \<Rightarrow> bool" where
  "in_process (Req i) j \<longleftrightarrow> i = j"
| "in_process (CallRestock i) j \<longleftrightarrow> i = j"
| "in_process (ReqPool i) j \<longleftrightarrow> i = j"
| "in_process (Restock i t) j \<longleftrightarrow> i = j"
| "in_process (RestockRet i) j \<longleftrightarrow> i = j"
| "in_process (Work i t0 d) j \<longleftrightarrow> i = j"
| "in_process (Repair i t) j \<longleftrightarrow> i = j"
| "in_process c j \<longleftrightarrow> False"

fun holds_station :: "ppc \<Rightarrow> nat \<Rightarrow> bool" where
  "holds_station (Req i) j \<longleftrightarrow> False"
| "holds_station c j \<longleftrightarrow> in_process c j"

fun in_restock :: "ppc \<Rightarrow> bool" where
  "in_restock (ReqPool i) \<longleftrightarrow> True"
| "in_restock (Restock i t) \<longleftrightarrow> True"
| "in_restock c \<longleftrightarrow> False"

fun holds_pool :: "ppc \<Rightarrow> bool" where
  "holds_pool (Restock i t) \<longleftrightarrow> True"
| "holds_pool c \<longleftrightarrow> False"

text \<open>The requests a resource knows about: those granted and those waiting.\<close>

definition members :: "Resource \<Rightarrow> nat list" where
  "members r = users r @ queue r"

text \<open>
  The requests of every resource belong to distinct products that are inside the
  corresponding block, and a product resumed inside a block is among the holders.
\<close>

definition holders_ok :: "Plant \<Rightarrow> bool" where
  "holders_ok s \<longleftrightarrow>
     (\<forall>j. distinct (members (resource (stations s j)))) \<and>
     (\<forall>j p. p \<in> set (members (resource (stations s j))) \<longrightarrow>
        (\<exists>P. products s p = Some P \<and> in_process (pc P) j)) \<and>
     (\<forall>j p P. products s p = Some P \<longrightarrow> holds_station (pc P) j \<longrightarrow>
        p \<in> set (users (resource (stations s j)))) \<and>
     distinct (members (restockers s)) \<and>
     (\<forall>p. p \<in> set (members (restockers s)) \<longrightarrow>
        (\<exists>P. products s p = Some P \<and> in_restock (pc P))) \<and>
     (\<forall>p P. products s p = Some P \<longrightarrow> holds_pool (pc P) \<longrightarrow>
        p \<in> set (users (restockers s)))"

text \<open>
  A contended station. In \<open>before_acquire\<close> the first product has arrived at time 1 and
  the process of station 0 has been created for it, but has not yet requested the
  resource. In \<open>contended\<close> it has then acquired the resource and started a processing
  delay of 4, and the second product, arrived at time 2, has requested the same resource
  and waits in its queue.
\<close>

definition before_acquire :: "label list" where
  "before_acquire = [Arrive 1, Arrive 1, Resume 1 0 0]"

definition contended :: "label list" where
  "contended =
     before_acquire @ [Resume 1 0 0, Resume 1 4 0, Arrive 10, Resume 2 0 0, Resume 2 0 0]"

text \<open>
  The clock has not passed the horizon; the busy time of every station is between 0 and
  the clock; a product in its processing delay at a station started the delay no earlier
  than the station's busy time, and the delay is not negative; the busy time of the
  restocking device is not negative.
\<close>

definition time_ok :: "Plant \<Rightarrow> bool" where
  "time_ok s \<longleftrightarrow>
     now s \<le> horizon \<and>
     (\<forall>j. 0 \<le> ocupacion_estaciones (stats s) j \<and> ocupacion_estaciones (stats s) j \<le> now s) \<and>
     (\<forall>p P j t0 d. products s p = Some P \<longrightarrow> pc P = Work j t0 d \<longrightarrow>
        ocupacion_estaciones (stats s) j \<le> t0 \<and> 0 \<le> d) \<and>
     0 \<le> uso_dispositivo_suministro (stats s)"

text \<open>The first product has been processed by station 0, which took 4 time units.\<close>

definition one_processed :: "label list" where
  "one_processed = arrive_and_hold @ [Resume 1 4 0, Resume 1 (1 / 2) 0]"

section \<open>Proofs\<close>

subsection \<open>Frame lemmas\<close>

lemmas sim_defs =
  new_plant_def new_station_def new_stats_def new_product_def
  resume_def product_loop_def product_return_def station_body_def station_finish_def
  select_station_def set_pc_def upd_station_def upd_stats_def request_def release_def
  fires_def horizon_def uniform_draw_def expo_draw_def failure_probability_def
  failure_table_def Let_def

lemma capacity_request [simp]: "capacity (request p r) = capacity r"
  by (simp add: request_def)

lemma capacity_release [simp]: "capacity (release p r) = capacity r"
  by (simp add: release_def Let_def split: list.splits)

lemma request_bound:
  "length (users r) \<le> capacity r \<Longrightarrow> length (users (request p r)) \<le> capacity r"
  by (simp add: request_def)

lemma length_remove1_le: "length (remove1 p xs) \<le> length xs"
  by (induction xs) auto

lemma release_bound:
  "length (users r) \<le> capacity r \<Longrightarrow> length (users (release p r)) \<le> capacity r"
  using length_remove1_le [of p "users r"]
  by (auto simp: release_def Let_def split: list.splits)

lemma set_pc_simps [simp]:
  "now (set_pc p c s) = now s"
  "stations (set_pc p c s) = stations s"
  "restockers (set_pc p c s) = restockers s"
  "stats (set_pc p c s) = stats s"
  "product_count (set_pc p c s) = product_count s"
  "arrivals (set_pc p c s) = arrivals s"
  "products (set_pc p c s) = (products s)(p := map_option (\<lambda>P. P\<lparr>pc := c\<rparr>) (products s p))"
  by (simp_all add: set_pc_def)

lemma upd_station_simps [simp]:
  "now (upd_station j f s) = now s"
  "stations (upd_station j f s) = (stations s)(j := f (stations s j))"
  "restockers (upd_station j f s) = restockers s"
  "stats (upd_station j f s) = stats s"
  "product_count (upd_station j f s) = product_count s"
  "arrivals (upd_station j f s) = arrivals s"
  "products (upd_station j f s) = products s"
  by (simp_all add: upd_station_def)

lemma upd_stats_simps [simp]:
  "now (upd_stats f s) = now s"
  "stations (upd_stats f s) = stations s"
  "restockers (upd_stats f s) = restockers s"
  "stats (upd_stats f s) = f (stats s)"
  "product_count (upd_stats f s) = product_count s"
  "arrivals (upd_stats f s) = arrivals s"
  "products (upd_stats f s) = products s"
  by (simp_all add: upd_stats_def)

lemma product_loop_frame:
  assumes "product_loop p P s = Some s'"
  shows "now s' = now s" "stations s' = stations s" "restockers s' = restockers s"
    "stats s' = stats s" "product_count s' = product_count s" "arrivals s' = arrivals s"
  using assms by (auto simp: product_loop_def Let_def split: if_splits)

lemma product_return_frame:
  assumes "product_return p P j u s = Some s'"
  shows "now s' = now s" "stations s' = stations s" "restockers s' = restockers s"
    "product_count s' = product_count s" "arrivals s' = arrivals s"
  using assms
  by (auto simp: product_return_def Let_def dest: product_loop_frame split: if_splits)

lemma station_body_frame [simp]:
  "now (station_body p j x s) = now s"
  "restockers (station_body p j x s) = restockers s"
  "resource (stations (station_body p j x s) i) = resource (stations s i)"
  by (simp_all add: station_body_def Let_def)

text \<open>A property that the first state has and every transition keeps holds after a run.\<close>

lemma run_invariant:
  assumes "run ls s = Some s'" and "I s"
    and "\<And>l t t'. I t \<Longrightarrow> step l t = Some t' \<Longrightarrow> I t'"
  shows "I s'"
  using assms(1,2)
proof (induction ls arbitrary: s)
  case Nil
  then show ?case by simp
next
  case (Cons l ls)
  then show ?case by (auto split: option.splits intro: assms(3))
qed

lemma run_append:
  "run (xs @ ys) s = (case run xs s of None \<Rightarrow> None | Some s' \<Rightarrow> run ys s')"
  by (induction xs arbitrary: s) (auto split: option.splits)

subsection \<open>Sample runs\<close>

lemma drain_run:
  "\<exists>s. run drain new_plant = Some s \<and> now s = 4925 \<and>
       raw_material (stations s 0) = 0 \<and>
       products s 26 = Some \<lparr>stage = 0, completed_stations = {}, pc = ReqPool 0\<rparr> \<and>
       users (restockers s) = [26] \<and> queue (restockers s) = [] \<and>
       capacity (restockers s) = 3 \<and>
       uso_dispositivo_suministro (stats s) = 0"
  by (simp add: drain_def first_visit_def sim_defs)

lemma two_rejected_run:
  "\<exists>s P. run two_rejected new_plant = Some s \<and> now s = 85 \<and>
       productos_completados (stats s) = 0 \<and> productos_rechazados (stats s) = 2 \<and>
       products s 3 = Some P \<and> pc P = Ret 5 \<and> stage P = 4 \<and>
       card (completed_stations P) = 5 \<and> 5 \<notin> completed_stations P"
  by (simp add: two_rejected_def whole_def visit_def sim_defs)

lemma last_draw:
  assumes P: "products s 3 = Some P" "pc P = Ret 5" "stage P = 4"
    "card (completed_stations P) = 5" "5 \<notin> completed_stations P"
  shows "\<exists>s' P'. step (Resume 3 (1 / 2) 0) s = Some s' \<and>
           productos_completados (stats s') = productos_completados (stats s) + 1 \<and>
           productos_rechazados (stats s') = productos_rechazados (stats s) \<and>
           products s' 3 = Some P' \<and> card (completed_stations P') = 6"
proof -
  from P(4) have "finite (completed_stations P)" by (simp add: card_ge_0_finite)
  with P(4,5) have "card (insert 5 (completed_stations P)) = 6" by simp
  with P show ?thesis
    by (simp add: resume_def uniform_draw_def product_return_def product_loop_def Let_def)
qed

lemma contended_run:
  "\<exists>s. run contended new_plant = Some s \<and> now s = 2 \<and>
       products s 1 = Some \<lparr>stage = 0, completed_stations = {}, pc = Work 0 1 4\<rparr> \<and>
       users (resource (stations s 0)) = [1] \<and> queue (resource (stations s 0)) = [2] \<and>
       capacity (resource (stations s 0)) = 1 \<and> processed_count (stations s 0) = 0"
  by (simp add: contended_def before_acquire_def sim_defs)

subsection \<open>Holders and capacity\<close>

lemma res_ok_resume:
  assumes "res_ok s" and "resume p P x y s = Some s'"
  shows "res_ok s'"
proof (cases "pc P")
  case Init
  with assms show ?thesis by (auto simp: resume_def res_ok_def dest: product_loop_frame)
next
  case (Call j)
  with assms show ?thesis
    using request_bound [of "resource (stations s j)" p]
    by (auto simp: resume_def res_ok_def)
next
  case (Req j)
  with assms show ?thesis by (auto simp: resume_def res_ok_def split: if_splits)
next
  case (CallRestock j)
  with assms show ?thesis
    using request_bound [of "restockers s" p]
    by (auto simp: resume_def res_ok_def)
next
  case (ReqPool j)
  with assms show ?thesis by (auto simp: resume_def res_ok_def Let_def split: if_splits)
next
  case (Restock j t)
  with assms show ?thesis
    using release_bound [of "restockers s" p]
    by (auto simp: resume_def res_ok_def split: if_splits)
next
  case (RestockRet j)
  with assms show ?thesis by (auto simp: resume_def res_ok_def)
next
  case (Work j t0 d)
  with assms show ?thesis
    using release_bound [of "resource (stations s j)" p]
    by (auto simp: resume_def res_ok_def station_finish_def Let_def split: if_splits)
next
  case (Repair j t)
  with assms show ?thesis
    using release_bound [of "resource (stations s j)" p]
    by (auto simp: resume_def res_ok_def split: if_splits)
next
  case (Ret j)
  with assms show ?thesis
    by (auto simp: resume_def res_ok_def dest: product_return_frame split: if_splits)
next
  case Done
  with assms show ?thesis by (simp add: resume_def)
qed

lemma res_ok_step:
  assumes "res_ok s" and "step l s = Some s'"
  shows "res_ok s'"
proof (cases l)
  case (Arrive d)
  with assms show ?thesis
    by (auto simp: res_ok_def split: if_splits gen_pc.splits)
next
  case (Resume p x y)
  with assms show ?thesis
    by (auto split: option.splits dest: res_ok_resume)
qed

lemma res_ok_new: "res_ok new_plant"
  by (simp add: res_ok_def new_plant_def new_station_def)

lemma res_ok_run: "run ls new_plant = Some s \<Longrightarrow> res_ok s"
  by (rule run_invariant [of ls new_plant s res_ok, OF _ res_ok_new res_ok_step])

text \<open>
  Claim C3. After any run, every station's resource has capacity 1 and at most that many
  holders, and the restocking pool has capacity 3 and at most that many holders. Every
  state the plant passes through is the end of a shorter run, so this is a statement
  about every point of every run.
\<close>

theorem holders_within_capacity:
  assumes "run ls new_plant = Some s"
  shows "(\<forall>j. length (users (resource (stations s j))) \<le> capacity (resource (stations s j)) \<and>
            capacity (resource (stations s j)) = 1) \<and>
         length (users (restockers s)) \<le> capacity (restockers s) \<and>
         capacity (restockers s) = 3"
  using res_ok_run [OF assms] by (simp add: res_ok_def)

theorem holders_within_capacity_witness:
  "\<exists>s. run arrive_and_hold new_plant = Some s \<and>
       users (resource (stations s 0)) = [1] \<and>
       (\<forall>j. length (users (resource (stations s j))) \<le> capacity (resource (stations s j)) \<and>
            capacity (resource (stations s j)) = 1) \<and>
       length (users (restockers s)) \<le> capacity (restockers s) \<and>
       capacity (restockers s) = 3"
proof -
  have "\<exists>s. run arrive_and_hold new_plant = Some s \<and> users (resource (stations s 0)) = [1]"
    by (simp add: arrive_and_hold_def sim_defs)
  then obtain s where s: "run arrive_and_hold new_plant = Some s"
    and u: "users (resource (stations s 0)) = [1]" by blast
  from holders_within_capacity [OF s] s u show ?thesis by blast
qed

subsection \<open>Raw material\<close>

lemma raw_resume:
  assumes "resume p P x y s = Some s'" and "products s p = Some P"
  shows "raw_material (stations s' j) = raw_material (stations s j) \<or>
         (0 < raw_material (stations s j) \<and>
          raw_material (stations s' j) = raw_material (stations s j) - 1) \<or>
         (raw_material (stations s' j) = 25 \<and> restock_completes (Resume p x y) s j)"
proof (cases "pc P")
  case Init
  with assms show ?thesis by (auto simp: resume_def dest: product_loop_frame)
next
  case (Call i)
  with assms show ?thesis by (auto simp: resume_def split: if_splits)
next
  case (Req i)
  with assms show ?thesis
    by (auto simp: resume_def station_body_def Let_def split: if_splits)
next
  case (CallRestock i)
  with assms show ?thesis by (auto simp: resume_def)
next
  case (ReqPool i)
  with assms show ?thesis by (auto simp: resume_def Let_def split: if_splits)
next
  case (Restock i t)
  with assms show ?thesis
    by (auto simp: resume_def restock_completes_def split: if_splits)
next
  case (RestockRet i)
  with assms show ?thesis
    by (auto simp: resume_def station_body_def Let_def split: if_splits)
next
  case (Work i t0 d)
  with assms show ?thesis
    by (auto simp: resume_def station_finish_def Let_def split: if_splits)
next
  case (Repair i t)
  with assms show ?thesis by (auto simp: resume_def split: if_splits)
next
  case (Ret i)
  with assms show ?thesis
    by (auto simp: resume_def dest: product_return_frame split: if_splits)
next
  case Done
  with assms show ?thesis by (simp add: resume_def)
qed

lemma raw_step:
  assumes "step l s = Some s'"
  shows "raw_material (stations s' j) = raw_material (stations s j) \<or>
         (0 < raw_material (stations s j) \<and>
          raw_material (stations s' j) = raw_material (stations s j) - 1) \<or>
         (raw_material (stations s' j) = 25 \<and> restock_completes l s j)"
proof (cases l)
  case (Arrive d)
  with assms show ?thesis by (auto split: if_splits gen_pc.splits)
next
  case (Resume p x y)
  with assms obtain P where "products s p = Some P" "resume p P x y s = Some s'"
    by (auto split: option.splits)
  with Resume show ?thesis using raw_resume [of p P x y s s' j] by simp
qed

lemma raw_ok_step: "raw_ok s \<Longrightarrow> step l s = Some s' \<Longrightarrow> raw_ok s'"
  unfolding raw_ok_def
proof (intro allI)
  fix j
  assume a: "\<forall>j. 0 \<le> raw_material (stations s j) \<and> raw_material (stations s j) \<le> 25"
    and st: "step l s = Some s'"
  from a have "0 \<le> raw_material (stations s j) \<and> raw_material (stations s j) \<le> 25" by blast
  with raw_step [OF st, of j]
  show "0 \<le> raw_material (stations s' j) \<and> raw_material (stations s' j) \<le> 25" by auto
qed

lemma raw_ok_new: "raw_ok new_plant"
  by (simp add: raw_ok_def new_plant_def new_station_def)

lemma raw_ok_run: "run ls new_plant = Some s \<Longrightarrow> raw_ok s"
  by (rule run_invariant [of ls new_plant s raw_ok, OF _ raw_ok_new raw_ok_step])

text \<open>
  Claim C5. After any run the stock of station \<open>j\<close> is a non-negative integer, and so it
  is after one more transition; a transition that makes the stock 25 when it was not 25
  before is the one in which a restock of station \<open>j\<close> finishes its delay.
\<close>

theorem raw_material_nonneg_reset_only_by_restock:
  assumes "run ls new_plant = Some s"
  shows "0 \<le> raw_material (stations s j) \<and>
         (\<forall>l s'. step l s = Some s' \<longrightarrow>
            0 \<le> raw_material (stations s' j) \<and>
            (raw_material (stations s' j) = 25 \<and> raw_material (stations s j) \<noteq> 25 \<longrightarrow>
               restock_completes l s j))"
proof -
  from raw_ok_run [OF assms] have ok: "raw_ok s" .
  then have r: "0 \<le> raw_material (stations s j)" "raw_material (stations s j) \<le> 25"
    by (simp_all add: raw_ok_def)
  have "0 \<le> raw_material (stations s' j) \<and>
        (raw_material (stations s' j) = 25 \<and> raw_material (stations s j) \<noteq> 25 \<longrightarrow>
           restock_completes l s j)" if st: "step l s = Some s'" for l s'
    using raw_step [OF st, of j] r by auto
  with r show ?thesis by blast
qed

theorem raw_material_nonneg_reset_only_by_restock_witness:
  "\<exists>s s'. run (drain @ [Resume 26 2 0]) new_plant = Some s \<and>
       step (Resume 26 0 0) s = Some s' \<and>
       raw_material (stations s 0) = 0 \<and> raw_material (stations s' 0) = 25 \<and>
       0 \<le> raw_material (stations s' 0) \<and> restock_completes (Resume 26 0 0) s 0"
proof -
  from drain_run obtain s0 where r0: "run drain new_plant = Some s0"
    and f0: "now s0 = 4925" "raw_material (stations s0 0) = 0"
      "products s0 26 = Some \<lparr>stage = 0, completed_stations = {}, pc = ReqPool 0\<rparr>"
      "users (restockers s0) = [26]"
    by blast
  from f0 have "\<exists>s. step (Resume 26 2 0) s0 = Some s \<and> now s = 4925 \<and>
      raw_material (stations s 0) = 0 \<and>
      products s 26 = Some \<lparr>stage = 0, completed_stations = {}, pc = Restock 0 (4927)\<rparr>"
    by (simp add: resume_def Let_def)
  then obtain s where s1: "step (Resume 26 2 0) s0 = Some s"
    and f1: "now s = 4925" "raw_material (stations s 0) = 0"
      "products s 26 = Some \<lparr>stage = 0, completed_stations = {}, pc = Restock 0 (4927)\<rparr>"
    by blast
  from r0 s1 have r1: "run (drain @ [Resume 26 2 0]) new_plant = Some s"
    by (simp add: run_append)
  from f1 have "\<exists>s'. step (Resume 26 0 0) s = Some s' \<and> raw_material (stations s' 0) = 25"
    by (simp add: resume_def fires_def horizon_def)
  then obtain s' where s2: "step (Resume 26 0 0) s = Some s'"
    and f2: "raw_material (stations s' 0) = 25" by blast
  from raw_material_nonneg_reset_only_by_restock [OF r1, of 0] s2 f1 f2
  have "0 \<le> raw_material (stations s' 0) \<and> restock_completes (Resume 26 0 0) s 0"
    by auto
  with r1 s2 f1 f2 show ?thesis by blast
qed

text \<open>
  Claim C10. After any run the stock of station \<open>j\<close> is at most 25; it is 25 at the
  start; and a transition leaves it as it is, takes one unit from a positive stock, or
  sets it to 25.
\<close>

theorem raw_material_at_most_25:
  assumes "run ls new_plant = Some s"
  shows "raw_material (stations s j) \<le> 25 \<and>
         raw_material (stations new_plant j) = 25 \<and>
         (\<forall>l s'. step l s = Some s' \<longrightarrow>
            raw_material (stations s' j) = raw_material (stations s j) \<or>
            (0 < raw_material (stations s j) \<and>
             raw_material (stations s' j) = raw_material (stations s j) - 1) \<or>
            raw_material (stations s' j) = 25)"
proof -
  from raw_ok_run [OF assms] have "raw_material (stations s j) \<le> 25"
    by (simp add: raw_ok_def)
  moreover have "raw_material (stations new_plant j) = 25"
    by (simp add: new_plant_def new_station_def)
  moreover have "raw_material (stations s' j) = raw_material (stations s j) \<or>
            (0 < raw_material (stations s j) \<and>
             raw_material (stations s' j) = raw_material (stations s j) - 1) \<or>
            raw_material (stations s' j) = 25" if st: "step l s = Some s'" for l s'
    using raw_step [OF st, of j] by auto
  ultimately show ?thesis by blast
qed

theorem raw_material_at_most_25_witness:
  "\<exists>s s'. run arrive_and_hold new_plant = Some s \<and> step (Resume 1 4 0) s = Some s' \<and>
       raw_material (stations s 0) = 25 \<and> raw_material (stations s' 0) = 24 \<and>
       raw_material (stations s 0) \<le> 25 \<and> raw_material (stations new_plant 0) = 25 \<and>
       (raw_material (stations s' 0) = raw_material (stations s 0) \<or>
        0 < raw_material (stations s 0) \<and>
        raw_material (stations s' 0) = raw_material (stations s 0) - 1 \<or>
        raw_material (stations s' 0) = 25)"
proof -
  have "\<exists>s. run arrive_and_hold new_plant = Some s \<and>
      (\<exists>s'. step (Resume 1 4 0) s = Some s' \<and> raw_material (stations s' 0) = 24) \<and>
      raw_material (stations s 0) = 25"
    by (simp add: arrive_and_hold_def sim_defs)
  then obtain s s' where r: "run arrive_and_hold new_plant = Some s"
    and st: "step (Resume 1 4 0) s = Some s'"
    and f: "raw_material (stations s' 0) = 24" "raw_material (stations s 0) = 25" by blast
  from raw_material_at_most_25 [OF r, of 0] st
  have "raw_material (stations s 0) \<le> 25 \<and> raw_material (stations new_plant 0) = 25 \<and>
       (raw_material (stations s' 0) = raw_material (stations s 0) \<or>
        0 < raw_material (stations s 0) \<and>
        raw_material (stations s' 0) = raw_material (stations s 0) - 1 \<or>
        raw_material (stations s' 0) = 25)" by blast
  with r st f show ?thesis by blast
qed

subsection \<open>The report\<close>

lemma collect_map_truediv:
  "b \<noteq> 0 \<Longrightarrow> collect (map (\<lambda>i. truediv (f i) b) xs) = Inr (map (\<lambda>i. f i / b) xs)"
  by (induction xs) (simp_all add: truediv_def and_then_def)

lemma results_row_eq:
  "results_row st =
     Inr \<lparr>produccion_final = productos_completados st,
          ocupacion_est = map (\<lambda>i. ocupacion_estaciones st i / 5000) [0..<6],
          inactividad_est = map (\<lambda>i. 5000 - ocupacion_estaciones st i) [0..<6],
          tiempo_inactividad_fallos = sum_list (tiempos_reparacion st),
          ocupacion_dispositivo = uso_dispositivo_suministro st / 5000,
          tiempo_promedio_reparacion =
            (if tiempos_reparacion st \<noteq> [] then
               sum_list (tiempos_reparacion st) / of_nat (length (tiempos_reparacion st))
             else 0),
          retraso_promedio_cuellos =
            (if total_esperas st \<noteq> 0 then
               uso_dispositivo_suministro st / of_int (total_esperas st)
             else 0),
          tasa_defectuosos =
            (if productos_completados st \<noteq> 0 then
               of_int (productos_rechazados st) / of_int (productos_completados st)
             else 0)\<rparr>"
proof -
  have c: "collect (map (\<lambda>i. truediv (ocupacion_estaciones st i) 5000) [0..<6]) =
      Inr (map (\<lambda>i. ocupacion_estaciones st i / 5000) [0..<6])"
    by (rule collect_map_truediv) simp
  show ?thesis
    unfolding results_row_def c
    by (simp add: tasa_productos_defectuosos_def retraso_promedio_def
        reparacion_promedio_def tiempo_total_reparaciones_def truediv_def and_then_def
        del: upt_rec_numeral)
qed

text \<open>
  Claim C9. For any statistics whatever, computing the row of the report raises no
  \<^verbatim>\<open>ZeroDivisionError\<close>, and the defect rate, the mean repair duration and the mean
  resupply delay are 0 when their denominators (completed products, number of repairs,
  number of resupply waits) are zero.
\<close>

theorem report_never_divides_by_zero:
  "\<exists>row. results_row st = Inr row \<and>
     (productos_completados st = 0 \<longrightarrow> tasa_defectuosos row = 0) \<and>
     (tiempos_reparacion st = [] \<longrightarrow> tiempo_promedio_reparacion row = 0) \<and>
     (total_esperas st = 0 \<longrightarrow> retraso_promedio_cuellos row = 0)"
  by (simp add: results_row_eq)

theorem report_never_divides_by_zero_witness:
  "productos_completados new_stats = 0 \<and> tiempos_reparacion new_stats = [] \<and>
   total_esperas new_stats = 0 \<and>
   (\<exists>row. results_row new_stats = Inr row \<and> tasa_defectuosos row = 0 \<and>
      tiempo_promedio_reparacion row = 0 \<and> retraso_promedio_cuellos row = 0)"
proof -
  have h: "productos_completados new_stats = 0" "tiempos_reparacion new_stats = []"
    "total_esperas new_stats = 0"
    by (simp_all add: new_stats_def total_esperas_def)
  from report_never_divides_by_zero [of new_stats] h show ?thesis by auto
qed

subsection \<open>Failures and repairs\<close>

lemma failure_resume:
  assumes "resume p P u r s = Some s'" and "products s p = Some P"
  shows "(fallos_estaciones (stats s') j \<noteq> fallos_estaciones (stats s) j \<longleftrightarrow>
            failure_check (Resume p u r) s j) \<and>
         (failure_check (Resume p u r) s j \<longrightarrow>
            fallos_estaciones (stats s') j = fallos_estaciones (stats s) j + 1 \<and>
            processed_count (stations s' j) = processed_count (stations s j) + 1 \<and>
            tiempos_reparacion (stats s') = tiempos_reparacion (stats s) @ [r] \<and>
            expo_draw r \<and>
            map_option pc (products s' p) = Some (Repair j (now s' + r)))"
proof (cases "pc P")
  case Init
  with assms show ?thesis
    by (auto simp: resume_def failure_check_def dest: product_loop_frame)
next
  case (Call i)
  with assms show ?thesis by (auto simp: resume_def failure_check_def)
next
  case (Req i)
  with assms show ?thesis
    by (auto simp: resume_def failure_check_def station_body_def Let_def split: if_splits)
next
  case (CallRestock i)
  with assms show ?thesis by (auto simp: resume_def failure_check_def)
next
  case (ReqPool i)
  with assms show ?thesis
    by (auto simp: resume_def failure_check_def Let_def split: if_splits)
next
  case (Restock i t)
  with assms show ?thesis by (auto simp: resume_def failure_check_def split: if_splits)
next
  case (RestockRet i)
  with assms show ?thesis
    by (auto simp: resume_def failure_check_def station_body_def Let_def split: if_splits)
next
  case (Work i t0 d)
  with assms show ?thesis
    by (auto simp: resume_def failure_check_def station_finish_def Let_def split: if_splits)
next
  case (Repair i t)
  with assms show ?thesis by (auto simp: resume_def failure_check_def split: if_splits)
next
  case (Ret i)
  with assms have pr: "product_return p P i u s = Some s'"
    by (auto simp: resume_def split: if_splits)
  then have "fallos_estaciones (stats s') = fallos_estaciones (stats s)"
    by (auto simp: product_return_def Let_def dest: product_loop_frame split: if_splits)
  with Ret assms show ?thesis by (simp add: failure_check_def)
next
  case Done
  with assms show ?thesis by (simp add: resume_def)
qed

lemma repair_then_return:
  assumes "step (Resume p x y) s = Some s'" and "products s p = Some P"
    and "pc P = Repair j t"
  shows "now s \<le> t \<and> now s' = t \<and> map_option pc (products s' p) = Some (Ret j)"
  using assms by (auto simp: resume_def fires_def split: if_splits)

text \<open>
  Claim C8. A transition changes the failure count of station \<open>j\<close> if and only if it
  is a completion of processing at station \<open>j\<close> in which the incremented processed
  count is a multiple of 5 and the draw is below the station's failure probability. In
  that case the count grows by one, the repair duration \<open>r\<close> drawn from
  \<^verbatim>\<open>expovariate(1/3)\<close> is appended to the list of repair times, and the product is
  suspended until \<open>r\<close> later; its next segment runs at that time and returns from the
  station's process. The failure probabilities of the stations 0 to 5 are 0.02, 0.01,
  0.05, 0.15, 0.07 and 0.06, and the rate 1/3 of the repair draw is a mean of 3.
\<close>

theorem failure_iff_fifth_and_draw:
  assumes "step l s = Some s'"
  shows "(fallos_estaciones (stats s') j \<noteq> fallos_estaciones (stats s) j \<longleftrightarrow>
            failure_check l s j) \<and>
         (failure_check l s j \<longrightarrow>
            (\<exists>p u r. l = Resume p u r \<and>
               fallos_estaciones (stats s') j = fallos_estaciones (stats s) j + 1 \<and>
               processed_count (stations s' j) = processed_count (stations s j) + 1 \<and>
               tiempos_reparacion (stats s') = tiempos_reparacion (stats s) @ [r] \<and>
               expo_draw r \<and>
               map_option pc (products s' p) = Some (Repair j (now s' + r)) \<and>
               (\<forall>x y s''. step (Resume p x y) s' = Some s'' \<longrightarrow>
                  now s'' = now s' + r \<and> map_option pc (products s'' p) = Some (Ret j)))) \<and>
         map failure_probability [0..<6] = [2 / 100, 1 / 100, 5 / 100, 15 / 100, 7 / 100, 6 / 100] \<and>
         1 / fix_time_rate = 3"
proof -
  have tab: "map failure_probability [0..<6] =
      [2 / 100, 1 / 100, 5 / 100, 15 / 100, 7 / 100, 6 / 100]"
    by (simp add: upt_conv_Cons failure_probability_def failure_table_def)
  have rate: "1 / fix_time_rate = 3" by (simp add: fix_time_rate_def)
  show ?thesis
  proof (cases l)
    case (Arrive d)
    with assms have "stats s' = stats s" by (auto split: if_splits gen_pc.splits)
    with Arrive tab rate show ?thesis by (simp add: failure_check_def)
  next
    case (Resume p u r)
    with assms obtain P where P: "products s p = Some P" and re: "resume p P u r s = Some s'"
      by (auto split: option.splits)
    note fr = failure_resume [OF re P, of j]
    have "now s'' = now s' + r \<and> map_option pc (products s'' p) = Some (Ret j)"
      if fc: "failure_check (Resume p u r) s j" and st: "step (Resume p x y) s' = Some s''"
      for x y s''
    proof -
      from fr fc have "map_option pc (products s' p) = Some (Repair j (now s' + r))" by blast
      then obtain P' where "products s' p = Some P'" "pc P' = Repair j (now s' + r)" by auto
      from repair_then_return [OF st this] show ?thesis by simp
    qed
    with fr Resume tab rate show ?thesis by blast
  qed
qed

lemma fifth_visit_run:
  "\<exists>s. run fifth_visit new_plant = Some s \<and> now s = 4904 \<and>
       products s 5 = Some \<lparr>stage = 0, completed_stations = {}, pc = Work 0 4904 0\<rparr> \<and>
       processed_count (stations s 0) = 4"
  by (simp add: fifth_visit_def first_visit_def sim_defs)

theorem failure_iff_fifth_and_draw_witness:
  "\<exists>s s' s''. run fifth_visit new_plant = Some s \<and>
       step (Resume 5 (1 / 100) 3) s = Some s' \<and>
       failure_check (Resume 5 (1 / 100) 3) s 0 \<and>
       fallos_estaciones (stats s') 0 = fallos_estaciones (stats s) 0 + 1 \<and>
       processed_count (stations s' 0) = 5 \<and>
       tiempos_reparacion (stats s') = tiempos_reparacion (stats s) @ [3] \<and>
       map_option pc (products s' 5) = Some (Repair 0 4907) \<and>
       step (Resume 5 0 0) s' = Some s'' \<and> now s'' = 4907 \<and>
       map_option pc (products s'' 5) = Some (Ret 0)"
proof -
  from fifth_visit_run obtain s where r: "run fifth_visit new_plant = Some s"
    and f: "now s = 4904"
      "products s 5 = Some \<lparr>stage = 0, completed_stations = {}, pc = Work 0 4904 0\<rparr>"
      "processed_count (stations s 0) = 4"
    by blast
  from f have fc: "failure_check (Resume 5 (1 / 100) 3) s 0"
    by (simp add: failure_check_def failure_probability_def failure_table_def)
  from f have "\<exists>s'. step (Resume 5 (1 / 100) 3) s = Some s' \<and> now s' = 4904 \<and>
      map_option pc (products s' 5) = Some (Repair 0 4907)"
    by (simp add: resume_def station_finish_def fires_def horizon_def uniform_draw_def
        expo_draw_def failure_probability_def failure_table_def Let_def)
  then obtain s' where st: "step (Resume 5 (1 / 100) 3) s = Some s'" and n': "now s' = 4904"
    and pc': "map_option pc (products s' 5) = Some (Repair 0 4907)" by blast
  from pc' n' have "\<exists>s''. step (Resume 5 0 0) s' = Some s''"
    by (auto simp: resume_def fires_def horizon_def)
  then obtain s'' where st2: "step (Resume 5 0 0) s' = Some s''" by blast
  from failure_iff_fifth_and_draw [OF st, of 0] fc st2 n' f
  have "fallos_estaciones (stats s') 0 = fallos_estaciones (stats s) 0 + 1 \<and>
       processed_count (stations s' 0) = 5 \<and>
       tiempos_reparacion (stats s') = tiempos_reparacion (stats s) @ [3] \<and>
       now s'' = 4907 \<and> map_option pc (products s'' 5) = Some (Ret 0)"
    by auto
  with r st fc pc' st2 show ?thesis by blast
qed

subsection \<open>Products and counters\<close>

lemma lessThan_4: "{..<4::nat} = {0, 1, 2, 3}"
  by auto

lemma route_ok_card: "route_ok st cs j \<Longrightarrow> finite cs \<and> card cs < 6 \<and> j \<notin> cs"
  by (auto simp: route_ok_def)

lemma product_ok_set_pc:
  "product_ok P \<Longrightarrow> station_of (pc P) = Some j \<Longrightarrow> station_of c = Some j \<Longrightarrow>
   product_ok (P\<lparr>pc := c\<rparr>)"
  by (simp add: product_ok_def)

lemma product_loop_ok:
  assumes "product_loop p P s = Some s'" and "loop_ok (stage P) (completed_stations P)"
  shows "\<exists>c. s' = s\<lparr>products := (products s)(p \<mapsto> P\<lparr>pc := c\<rparr>)\<rparr> \<and> product_ok (P\<lparr>pc := c\<rparr>) \<and>
             (c = Done \<and> card (completed_stations P) = 6 \<or>
              (\<exists>j. c = Call j) \<and> card (completed_stations P) < 6)"
proof -
  from assms(2) consider
      (seq) "stage P < 4" "completed_stations P = {..<stage P}"
    | (both) "stage P = 4" "completed_stations P = {0, 1, 2, 3}"
    | (four) "stage P = 4" "completed_stations P = {0, 1, 2, 3, 4}"
    | (five) "stage P = 4" "completed_stations P = {0, 1, 2, 3, 5}"
    | (all) "stage P = 4" "completed_stations P = {0, 1, 2, 3, 4, 5}"
    by (auto simp: loop_ok_def)
  then show ?thesis
  proof cases
    case seq
    with assms(1) show ?thesis
      by (intro exI [of _ "Call (stage P)"])
        (auto simp: product_loop_def product_ok_def route_ok_def)
  next
    case both
    with assms(1) show ?thesis
      by (intro exI [of _ "Call (if length (queue (resource (stations s 4)))
              \<le> length (queue (resource (stations s 5))) then 4 else 5)"])
        (auto simp: product_loop_def product_ok_def route_ok_def select_station_def Let_def)
  next
    case four
    with assms(1) show ?thesis
      by (intro exI [of _ "Call 5"])
        (auto simp: product_loop_def product_ok_def route_ok_def select_station_def Let_def)
  next
    case five
    with assms(1) show ?thesis
      by (intro exI [of _ "Call 4"])
        (auto simp: product_loop_def product_ok_def route_ok_def select_station_def Let_def)
  next
    case all
    with assms(1) show ?thesis
      by (intro exI [of _ Done]) (auto simp: product_loop_def product_ok_def)
  qed
qed

lemma return_seq:
  assumes pr: "product_return p P j u s = Some s'"
    and seq: "stage P < 4" "j = stage P" "completed_stations P = {..<stage P}"
  shows "\<exists>P'. products s' = (products s)(p \<mapsto> P') \<and> product_ok P' \<and>
           completed_stations P' = insert j (completed_stations P) \<and>
           (\<exists>i. pc P' = Call i) \<and> card (completed_stations P') < 6 \<and>
           stats s' = stats s"
proof -
  define P1 where "P1 = P\<lparr>completed_stations := insert (stage P) (completed_stations P),
    stage := stage P + 1\<rparr>"
  have cs: "completed_stations P1 = {..<Suc (stage P)}"
    using seq by (simp add: P1_def lessThan_Suc)
  have st: "stage P1 = Suc (stage P)" by (simp add: P1_def)
  have lo: "loop_ok (stage P1) (completed_stations P1)"
  proof (cases "stage P = 3")
    case True
    then show ?thesis unfolding cs st by (simp add: loop_ok_def lessThan_4)
  next
    case False
    with seq(1) have "Suc (stage P) < 4" by simp
    then show ?thesis unfolding cs st by (simp add: loop_ok_def)
  qed
  from pr seq have pl: "product_loop p P1 s = Some s'"
    by (simp add: product_return_def P1_def)
  have cd: "card (completed_stations P1) < 6" using seq(1) by (simp add: cs)
  from product_loop_ok [OF pl lo] cd obtain c where
    c: "s' = s\<lparr>products := (products s)(p \<mapsto> P1\<lparr>pc := c\<rparr>)\<rparr>" "product_ok (P1\<lparr>pc := c\<rparr>)"
      "\<exists>j. c = Call j"
    by auto
  have "completed_stations (P1\<lparr>pc := c\<rparr>) = insert j (completed_stations P)"
    using seq by (simp add: P1_def)
  with c cd show ?thesis
    by (intro exI [of _ "P1\<lparr>pc := c\<rparr>"]) simp
qed

lemma return_first:
  assumes pr: "product_return p P j u s = Some s'"
    and br: "stage P = 4" "j = 4 \<or> j = 5" "completed_stations P = {0, 1, 2, 3}"
  shows "\<exists>P'. products s' = (products s)(p \<mapsto> P') \<and> product_ok P' \<and>
           completed_stations P' = insert j (completed_stations P) \<and>
           (\<exists>i. pc P' = Call i) \<and> card (completed_stations P') < 6 \<and>
           stats s' = stats s"
proof -
  define P1 where "P1 = P\<lparr>completed_stations := insert j (completed_stations P)\<rparr>"
  have cs: "completed_stations P1 = {0, 1, 2, 3, 4} \<or> completed_stations P1 = {0, 1, 2, 3, 5}"
    using br by (auto simp: P1_def)
  then have cd: "card (completed_stations P1) = 5"
  proof
    assume "completed_stations P1 = {0, 1, 2, 3, 4}"
    then show ?thesis by simp
  next
    assume "completed_stations P1 = {0, 1, 2, 3, 5}"
    then show ?thesis by simp
  qed
  have st: "stage P1 = 4" using br by (simp add: P1_def)
  have lo: "loop_ok (stage P1) (completed_stations P1)"
    using cs unfolding st loop_ok_def by blast
  from pr br(1) cd have pl: "product_loop p P1 s = Some s'"
    by (simp add: product_return_def P1_def Let_def)
  from product_loop_ok [OF pl lo] cd obtain c where
    c: "s' = s\<lparr>products := (products s)(p \<mapsto> P1\<lparr>pc := c\<rparr>)\<rparr>" "product_ok (P1\<lparr>pc := c\<rparr>)"
      "\<exists>j. c = Call j"
    by auto
  have "completed_stations (P1\<lparr>pc := c\<rparr>) = insert j (completed_stations P)"
    by (simp add: P1_def)
  with c cd show ?thesis
    by (intro exI [of _ "P1\<lparr>pc := c\<rparr>"]) simp
qed

lemma return_last:
  assumes pr: "product_return p P j u s = Some s'"
    and br: "stage P = 4"
      "j = 4 \<and> completed_stations P = {0, 1, 2, 3, 5} \<or>
       j = 5 \<and> completed_stations P = {0, 1, 2, 3, 4}"
  shows "\<exists>P'. products s' = (products s)(p \<mapsto> P') \<and> product_ok P' \<and>
           completed_stations P' = insert j (completed_stations P) \<and>
           pc P' = Done \<and> card (completed_stations P') = 6 \<and>
           stats s' =
             (if u < 5 / 100 then
                (stats s)\<lparr>productos_rechazados := productos_rechazados (stats s) + 1\<rparr>
              else (stats s)\<lparr>productos_completados := productos_completados (stats s) + 1\<rparr>)"
proof -
  define P1 where "P1 = P\<lparr>completed_stations := insert j (completed_stations P)\<rparr>"
  have cs: "completed_stations P1 = {0, 1, 2, 3, 4, 5}"
  proof -
    have "insert (4::nat) {0, 1, 2, 3, 5} = {0, 1, 2, 3, 4, 5}" by auto
    moreover have "insert (5::nat) {0, 1, 2, 3, 4} = {0, 1, 2, 3, 4, 5}" by auto
    ultimately show ?thesis using br(2) by (auto simp: P1_def)
  qed
  have cd: "card (completed_stations P1) = 6" unfolding cs by simp
  have st: "stage P1 = 4" using br by (simp add: P1_def)
  have lo: "loop_ok (stage P1) (completed_stations P1)"
    unfolding cs st by (simp add: loop_ok_def)
  define s1 where "s1 = (if u < 5 / 100
    then upd_stats (\<lambda>st. st\<lparr>productos_rechazados := productos_rechazados st + 1\<rparr>) s
    else upd_stats (\<lambda>st. st\<lparr>productos_completados := productos_completados st + 1\<rparr>) s)"
  from pr br(1) cd have pl: "product_loop p P1 s1 = Some s'"
    by (simp add: product_return_def P1_def s1_def Let_def split: if_splits)
  from product_loop_ok [OF pl lo] cd obtain c where
    c: "s' = s1\<lparr>products := (products s1)(p \<mapsto> P1\<lparr>pc := c\<rparr>)\<rparr>" "product_ok (P1\<lparr>pc := c\<rparr>)"
      "c = Done"
    by auto
  have "completed_stations (P1\<lparr>pc := c\<rparr>) = insert j (completed_stations P)"
    by (simp add: P1_def)
  moreover have "products s1 = products s" by (simp add: s1_def)
  moreover have "stats s1 = (if u < 5 / 100 then
                (stats s)\<lparr>productos_rechazados := productos_rechazados (stats s) + 1\<rparr>
              else (stats s)\<lparr>productos_completados := productos_completados (stats s) + 1\<rparr>)"
    by (simp add: s1_def)
  ultimately show ?thesis using c cd
    by (intro exI [of _ "P1\<lparr>pc := c\<rparr>"]) simp
qed

lemma product_return_ok:
  assumes pr: "product_return p P j u s = Some s'"
    and ro: "route_ok (stage P) (completed_stations P) j"
  shows "effect p P u s s'"
proof -
  from ro consider
      (seq) "stage P < 4" "j = stage P" "completed_stations P = {..<stage P}"
    | (first) "stage P = 4" "j = 4 \<or> j = 5" "completed_stations P = {0, 1, 2, 3}"
    | (last) "stage P = 4"
        "j = 4 \<and> completed_stations P = {0, 1, 2, 3, 5} \<or>
         j = 5 \<and> completed_stations P = {0, 1, 2, 3, 4}"
    unfolding route_ok_def by blast
  then show ?thesis
  proof cases
    case seq
    from return_seq [OF pr seq] obtain P' where
      "products s' = (products s)(p \<mapsto> P')" "product_ok P'"
      "card (completed_stations P') < 6" "stats s' = stats s" by blast
    moreover have "card (completed_stations P) < 6" using seq by simp
    moreover note product_return_frame(4) [OF pr]
    ultimately show ?thesis unfolding effect_def by (intro exI [of _ P']) simp
  next
    case first
    from return_first [OF pr first] obtain P' where
      "products s' = (products s)(p \<mapsto> P')" "product_ok P'"
      "card (completed_stations P') < 6" "stats s' = stats s" by blast
    moreover have "card (completed_stations P) < 6" using first by simp
    moreover note product_return_frame(4) [OF pr]
    ultimately show ?thesis unfolding effect_def by (intro exI [of _ P']) simp
  next
    case last
    from return_last [OF pr last] obtain P' where
      "products s' = (products s)(p \<mapsto> P')" "product_ok P'"
      "card (completed_stations P') = 6"
      "stats s' =
         (if u < 5 / 100 then
            (stats s)\<lparr>productos_rechazados := productos_rechazados (stats s) + 1\<rparr>
          else (stats s)\<lparr>productos_completados := productos_completados (stats s) + 1\<rparr>)"
      by blast
    moreover have "card (completed_stations P) < 6" using last(2) by auto
    moreover note product_return_frame(4) [OF pr]
    ultimately show ?thesis unfolding effect_def by (intro exI [of _ P']) simp
  qed
qed

lemma effect_set_pc:
  assumes "product_ok P" and "station_of (pc P) = Some j" and "station_of c = Some j"
    and "products s' = (products s)(p \<mapsto> P\<lparr>pc := c\<rparr>)"
    and "product_count s' = product_count s"
    and "productos_completados (stats s') = productos_completados (stats s)"
    and "productos_rechazados (stats s') = productos_rechazados (stats s)"
  shows "effect p P u s s'"
  unfolding effect_def using assms product_ok_set_pc [OF assms(1-3)]
  by (intro exI [of _ "P\<lparr>pc := c\<rparr>"]) simp

lemma effect_init:
  assumes "product_loop p P s = Some s'" and "product_ok P" and "pc P = Init"
  shows "effect p P u s s'"
proof -
  from assms(2,3) have "loop_ok (stage P) (completed_stations P)"
    by (simp add: product_ok_def loop_ok_def)
  from product_loop_ok [OF assms(1) this] obtain c where
    "s' = s\<lparr>products := (products s)(p \<mapsto> P\<lparr>pc := c\<rparr>)\<rparr>" "product_ok (P\<lparr>pc := c\<rparr>)" by blast
  then show ?thesis unfolding effect_def by (intro exI [of _ "P\<lparr>pc := c\<rparr>"]) simp
qed

lemma station_body_effect:
  assumes "products s p = Some P" and ok: "product_ok P" and "station_of (pc P) = Some j"
  shows "effect p P u s (station_body p j x s)"
proof (cases "raw_material (stations s j) \<le> 0")
  case True
  with assms show ?thesis
    by (intro effect_set_pc [OF ok, of j "CallRestock j"]) (auto simp: station_body_def)
next
  case False
  with assms show ?thesis
    by (intro effect_set_pc [OF ok, of j "Work j (now s) (max 0 x)"])
      (auto simp: station_body_def Let_def)
qed

lemma station_finish_effect:
  assumes "products s p = Some P" and ok: "product_ok P" and "station_of (pc P) = Some j"
    and "products t = products s" and "product_count t = product_count s"
    and "stats t = stats s"
  shows "effect p P u s (station_finish p j d x y t)"
proof (cases "(processed_count (stations t j) + 1) mod 5 = 0 \<and> x < failure_probability j")
  case True
  with assms show ?thesis
    by (intro effect_set_pc [OF ok, of j "Repair j (now t + y)"])
      (auto simp: station_finish_def Let_def)
next
  case False
  with assms show ?thesis
    by (intro effect_set_pc [OF ok, of j "Ret j"])
      (auto simp: station_finish_def Let_def)
qed

lemma resume_effect:
  assumes re: "resume p P x y s = Some s'" and P: "products s p = Some P"
    and ok: "product_ok P"
  shows "effect p P x s s'"
proof (cases "pc P")
  case Init
  with re have "product_loop p P s = Some s'" by (simp add: resume_def)
  from effect_init [OF this ok Init] show ?thesis .
next
  case (Call j)
  with re P show ?thesis
    by (intro effect_set_pc [OF ok, of j "Req j"]) (auto simp: resume_def)
next
  case (Req j)
  with re P ok show ?thesis
    by (auto simp: resume_def split: if_splits intro!: station_body_effect)
next
  case (CallRestock j)
  with re P show ?thesis
    by (intro effect_set_pc [OF ok, of j "ReqPool j"]) (auto simp: resume_def)
next
  case (ReqPool j)
  with re P show ?thesis
    by (intro effect_set_pc [OF ok, of j "Restock j (now s + max 0 x)"])
      (auto simp: resume_def Let_def split: if_splits)
next
  case (Restock j t)
  with re P show ?thesis
    by (intro effect_set_pc [OF ok, of j "RestockRet j"])
      (auto simp: resume_def split: if_splits)
next
  case (RestockRet j)
  with re P ok show ?thesis
    by (auto simp: resume_def split: if_splits intro!: station_body_effect)
next
  case (Work j t0 d)
  with re P ok show ?thesis
    by (auto simp: resume_def split: if_splits intro!: station_finish_effect)
next
  case (Repair j t)
  with re P show ?thesis
    by (intro effect_set_pc [OF ok, of j "Ret j"])
      (auto simp: resume_def split: if_splits)
next
  case (Ret j)
  with re have pr: "product_return p P j x s = Some s'"
    by (simp add: resume_def split: if_splits)
  from ok Ret have "route_ok (stage P) (completed_stations P) j"
    by (simp add: product_ok_def)
  from product_return_ok [OF pr this] show ?thesis .
next
  case Done
  with re show ?thesis by (simp add: resume_def)
qed

lemma terminal_upd:
  "products s' = (products s)(p \<mapsto> P') \<Longrightarrow>
   terminal s' =
     (if card (completed_stations P') = 6 then insert p (terminal s) else terminal s - {p})"
  by (auto simp: terminal_def)

lemma terminal_mem:
  "products s p = Some P \<Longrightarrow> p \<in> terminal s \<longleftrightarrow> card (completed_stations P) = 6"
  by (simp add: terminal_def)

lemma terminal_finite: "products_ok s \<Longrightarrow> finite (terminal s)"
proof -
  assume "products_ok s"
  then have "terminal s \<subseteq> {1..product_count s}"
    by (fastforce simp: terminal_def products_ok_def)
  then show ?thesis by (rule finite_subset) simp
qed

lemma products_ok_effect:
  assumes "products_ok s" and "products s p = Some P" and "effect p P u s s'"
  shows "products_ok s'"
proof -
  from assms(3) obtain P' where P': "products s' = (products s)(p \<mapsto> P')" "product_ok P'"
    "product_count s' = product_count s"
    unfolding effect_def by blast
  from assms(1,2) have "1 \<le> p \<and> p \<le> product_count s"
    unfolding products_ok_def by (metis option.distinct(1))
  with assms(1) P' show ?thesis
    unfolding products_ok_def by (auto split: if_splits)
qed

lemma products_ok_arrive:
  assumes "products_ok s"
  shows "products_ok (s\<lparr>now := t, product_count := product_count s + 1,
           products := (products s)(product_count s + 1 \<mapsto> new_product), arrivals := a\<rparr>)"
proof -
  have np: "product_ok new_product" by (simp add: product_ok_def new_product_def)
  from assms have d: "\<And>p. products s p \<noteq> None \<longleftrightarrow> 1 \<le> p \<and> p \<le> product_count s"
    and k: "\<And>p P. products s p = Some P \<Longrightarrow> product_ok P"
    unfolding products_ok_def by blast+
  show ?thesis
    unfolding products_ok_def
  proof (intro conjI allI impI)
    fix p P
    assume "products (s\<lparr>now := t, product_count := product_count s + 1,
           products := (products s)(product_count s + 1 \<mapsto> new_product), arrivals := a\<rparr>) p
        = Some P"
    then show "product_ok P" using np k by (auto split: if_splits)
  next
    fix p
    show "products (s\<lparr>now := t, product_count := product_count s + 1,
           products := (products s)(product_count s + 1 \<mapsto> new_product), arrivals := a\<rparr>) p
        \<noteq> None \<longleftrightarrow>
        1 \<le> p \<and> p \<le> product_count (s\<lparr>now := t, product_count := product_count s + 1,
           products := (products s)(product_count s + 1 \<mapsto> new_product), arrivals := a\<rparr>)"
      using d [of p] by (cases "p = product_count s + 1") auto
  qed
qed

lemma terminal_cong: "products s' = products s \<Longrightarrow> terminal s' = terminal s"
  by (simp add: terminal_def)

lemma products_ok_step:
  assumes "products_ok s" and "step l s = Some s'"
  shows "products_ok s'"
proof (cases l)
  case (Arrive d)
  show ?thesis
  proof (cases "arrivals s")
    case GenStart
    with assms Arrive have "s' = s\<lparr>arrivals := GenWait (now s + d)\<rparr>"
      by (auto split: if_splits)
    with assms(1) show ?thesis by (simp add: products_ok_def)
  next
    case (GenWait t)
    with assms Arrive have "s' = s\<lparr>now := t, product_count := product_count s + 1,
           products := (products s)(product_count s + 1 \<mapsto> new_product),
           arrivals := GenWait (t + d)\<rparr>"
      by (auto split: if_splits)
    with products_ok_arrive [OF assms(1)] show ?thesis by simp
  qed
next
  case (Resume p x y)
  with assms(2) obtain P where P: "products s p = Some P" and re: "resume p P x y s = Some s'"
    by (auto split: option.splits)
  from assms(1) P have "product_ok P" by (simp add: products_ok_def)
  from products_ok_effect [OF assms(1) P resume_effect [OF re P this]] show ?thesis .
qed

lemma products_ok_new: "products_ok new_plant"
  by (simp add: products_ok_def new_plant_def)

lemma products_ok_run: "run ls new_plant = Some s \<Longrightarrow> products_ok s"
  by (rule run_invariant [of ls new_plant s products_ok, OF _ products_ok_new products_ok_step])

lemma counters_step:
  assumes ok: "products_ok s" and st: "step l s = Some s'"
  shows "(if completes_all l s s' then
            if rejection_draw l then
              productos_rechazados (stats s') = productos_rechazados (stats s) + 1 \<and>
              productos_completados (stats s') = productos_completados (stats s)
            else
              productos_completados (stats s') = productos_completados (stats s) + 1 \<and>
              productos_rechazados (stats s') = productos_rechazados (stats s)
          else
            productos_completados (stats s') = productos_completados (stats s) \<and>
            productos_rechazados (stats s') = productos_rechazados (stats s)) \<and>
         terminal s' = (if completes_all l s s' then
            (case l of Resume p x y \<Rightarrow> insert p (terminal s) | Arrive d \<Rightarrow> terminal s)
            else terminal s) \<and>
         (completes_all l s s' \<longrightarrow> (case l of Resume p x y \<Rightarrow> p \<notin> terminal s | Arrive d \<Rightarrow> False))"
proof (cases l)
  case (Arrive d)
  from ok have none: "products s (product_count s + 1) = None"
    unfolding products_ok_def by (metis Suc_eq_plus1 Suc_n_not_le_n)
  have nc: "\<not> completes_all l s s'" using Arrive by (simp add: completes_all_def)
  show ?thesis
  proof (cases "arrivals s")
    case GenStart
    with st Arrive have s': "s' = s\<lparr>arrivals := GenWait (now s + d)\<rparr>"
      by (auto split: if_splits)
    then have "terminal s' = terminal s" by (intro terminal_cong) simp
    with nc s' show ?thesis by simp
  next
    case (GenWait t)
    with st Arrive have s': "s' = s\<lparr>now := t, product_count := product_count s + 1,
           products := (products s)(product_count s + 1 \<mapsto> new_product),
           arrivals := GenWait (t + d)\<rparr>"
      by (auto split: if_splits)
    then have "products s' = (products s)(product_count s + 1 \<mapsto> new_product)" by simp
    from terminal_upd [OF this] none have "terminal s' = terminal s"
      by (auto simp: new_product_def terminal_def)
    with nc s' show ?thesis by simp
  qed
next
  case (Resume p x y)
  with st obtain P where P: "products s p = Some P" and re: "resume p P x y s = Some s'"
    by (auto split: option.splits)
  from ok P have "product_ok P" by (simp add: products_ok_def)
  from resume_effect [OF re P this] obtain P' where
    P': "products s' = (products s)(p \<mapsto> P')"
    and eff: "completed_stations P' = completed_stations P \<and>
           productos_completados (stats s') = productos_completados (stats s) \<and>
           productos_rechazados (stats s') = productos_rechazados (stats s) \<or>
         card (completed_stations P) < 6 \<and> card (completed_stations P') < 6 \<and>
           productos_completados (stats s') = productos_completados (stats s) \<and>
           productos_rechazados (stats s') = productos_rechazados (stats s) \<or>
         card (completed_stations P) < 6 \<and> card (completed_stations P') = 6 \<and>
           (if x < 5 / 100 then
              productos_rechazados (stats s') = productos_rechazados (stats s) + 1 \<and>
              productos_completados (stats s') = productos_completados (stats s)
            else
              productos_completados (stats s') = productos_completados (stats s) + 1 \<and>
              productos_rechazados (stats s') = productos_rechazados (stats s))"
    unfolding effect_def by blast
  have ca: "completes_all l s s' \<longleftrightarrow>
      card (completed_stations P) < 6 \<and> card (completed_stations P') = 6"
    using Resume P P' by (simp add: completes_all_def)
  have rd: "rejection_draw l \<longleftrightarrow> x < 5 / 100" using Resume by (simp add: rejection_draw_def)
  note tm = terminal_mem [OF P] and tu = terminal_upd [OF P']
  from eff show ?thesis
  proof (elim disjE)
    assume a: "completed_stations P' = completed_stations P \<and>
           productos_completados (stats s') = productos_completados (stats s) \<and>
           productos_rechazados (stats s') = productos_rechazados (stats s)"
    then have "\<not> completes_all l s s'" using ca by simp
    moreover have "terminal s' = terminal s" using a tm tu by auto
    ultimately show ?thesis using a by simp
  next
    assume a: "card (completed_stations P) < 6 \<and> card (completed_stations P') < 6 \<and>
           productos_completados (stats s') = productos_completados (stats s) \<and>
           productos_rechazados (stats s') = productos_rechazados (stats s)"
    then have "\<not> completes_all l s s'" using ca by simp
    moreover have "terminal s' = terminal s" using a tm tu by auto
    ultimately show ?thesis using a by simp
  next
    assume a: "card (completed_stations P) < 6 \<and> card (completed_stations P') = 6 \<and>
           (if x < 5 / 100 then
              productos_rechazados (stats s') = productos_rechazados (stats s) + 1 \<and>
              productos_completados (stats s') = productos_completados (stats s)
            else
              productos_completados (stats s') = productos_completados (stats s) + 1 \<and>
              productos_rechazados (stats s') = productos_rechazados (stats s))"
    then have c: "completes_all l s s'" using ca by simp
    moreover have "terminal s' = insert p (terminal s)" using a tu by simp
    moreover have "p \<notin> terminal s" using a tm by simp
    ultimately show ?thesis using a rd Resume by (simp split: if_splits)
  qed
qed

lemma counters_ok_step:
  assumes "products_ok s \<and> counters_ok s" and st: "step l s = Some s'"
  shows "products_ok s' \<and> counters_ok s'"
proof
  from assms have ok: "products_ok s" and co: "counters_ok s" by simp_all
  show "products_ok s'" by (rule products_ok_step [OF ok st])
  note fin = terminal_finite [OF ok]
  note cs = counters_step [OF ok st]
  show "counters_ok s'"
  proof (cases "completes_all l s s'")
    case False
    with cs co show ?thesis by (simp add: counters_ok_def)
  next
    case True
    with cs obtain p x y where l: "l = Resume p x y" and nt: "p \<notin> terminal s"
      by (cases l) auto
    from True cs l have t: "terminal s' = insert p (terminal s)" by simp
    have "card (terminal s') = Suc (card (terminal s))"
      unfolding t using fin nt by simp
    with True cs co show ?thesis by (auto simp: counters_ok_def split: if_splits)
  qed
qed

lemma counters_ok_new: "products_ok new_plant \<and> counters_ok new_plant"
proof
  show "products_ok new_plant" by (rule products_ok_new)
  show "counters_ok new_plant"
    by (simp add: counters_ok_def terminal_def new_plant_def new_stats_def)
qed

lemma counters_ok_run:
  "run ls new_plant = Some s \<Longrightarrow> products_ok s \<and> counters_ok s"
  by (rule run_invariant [of ls new_plant s "\<lambda>s. products_ok s \<and> counters_ok s",
        OF _ counters_ok_new counters_ok_step])

text \<open>
  Claim C7. After any run the two counters together count the products that have all six
  station ids in their completed set, so each such product has been counted once and no
  other product at all. In a transition in which the running product's completed set
  reaches six ids exactly one counter grows by one, the rejected counter when the draw
  of line 88 is below 0.05 and the completed counter otherwise; every other transition
  leaves both counters unchanged.
\<close>

theorem one_counter_once_per_finished_product:
  assumes "run ls new_plant = Some s"
  shows "productos_completados (stats s) + productos_rechazados (stats s) =
           int (card (terminal s)) \<and>
         (\<forall>l s'. step l s = Some s' \<longrightarrow>
            (if completes_all l s s' then
               if rejection_draw l then
                 productos_rechazados (stats s') = productos_rechazados (stats s) + 1 \<and>
                 productos_completados (stats s') = productos_completados (stats s)
               else
                 productos_completados (stats s') = productos_completados (stats s) + 1 \<and>
                 productos_rechazados (stats s') = productos_rechazados (stats s)
             else
               productos_completados (stats s') = productos_completados (stats s) \<and>
               productos_rechazados (stats s') = productos_rechazados (stats s)))"
proof -
  from counters_ok_run [OF assms] have ok: "products_ok s" and co: "counters_ok s"
    by simp_all
  from co have "productos_completados (stats s) + productos_rechazados (stats s) =
      int (card (terminal s))" by (simp add: counters_ok_def)
  moreover have "(if completes_all l s s' then
               if rejection_draw l then
                 productos_rechazados (stats s') = productos_rechazados (stats s) + 1 \<and>
                 productos_completados (stats s') = productos_completados (stats s)
               else
                 productos_completados (stats s') = productos_completados (stats s) + 1 \<and>
                 productos_rechazados (stats s') = productos_rechazados (stats s)
             else
               productos_completados (stats s') = productos_completados (stats s) \<and>
               productos_rechazados (stats s') = productos_rechazados (stats s))"
    if "step l s = Some s'" for l s'
    using counters_step [OF ok that] by blast
  ultimately show ?thesis by blast
qed

theorem one_counter_once_per_finished_product_witness:
  "\<exists>s s'. run two_rejected new_plant = Some s \<and> step (Resume 3 (1 / 2) 0) s = Some s' \<and>
       completes_all (Resume 3 (1 / 2) 0) s s' \<and> \<not> rejection_draw (Resume 3 (1 / 2) 0) \<and>
       productos_completados (stats s) + productos_rechazados (stats s) =
         int (card (terminal s)) \<and>
       productos_completados (stats s') = productos_completados (stats s) + 1 \<and>
       productos_rechazados (stats s') = productos_rechazados (stats s)"
proof -
  from two_rejected_run obtain s P where r: "run two_rejected new_plant = Some s"
    and P: "products s 3 = Some P" "pc P = Ret 5" "stage P = 4"
      "card (completed_stations P) = 5" "5 \<notin> completed_stations P"
    by blast
  from last_draw [OF P] obtain s' P' where st: "step (Resume 3 (1 / 2) 0) s = Some s'"
    and P': "products s' 3 = Some P'" "card (completed_stations P') = 6" by blast
  from P P' have ca: "completes_all (Resume 3 (1 / 2) 0) s s'"
    by (simp add: completes_all_def)
  have rd: "\<not> rejection_draw (Resume 3 (1 / 2) 0)" by (simp add: rejection_draw_def)
  note c7 = one_counter_once_per_finished_product [OF r]
  from c7 have sum: "productos_completados (stats s) + productos_rechazados (stats s) =
      int (card (terminal s))" by (rule conjunct1)
  from c7 [THEN conjunct2, rule_format, OF st] ca rd
  have "productos_completados (stats s') = productos_completados (stats s) + 1 \<and>
       productos_rechazados (stats s') = productos_rechazados (stats s)"
    by simp
  with r st ca rd sum show ?thesis by blast
qed

subsection \<open>The defect rate\<close>

text \<open>
  Claim C1, as the code has it. After any run the report is computed without error, its
  defect rate is the rejected products divided by the completed ones (0 when none
  completed) and is not negative; it is at most 1 exactly when no product completed or
  the rejected products are no more than the completed ones.
\<close>

theorem defect_rate_bounds:
  assumes "run ls new_plant = Some s"
  shows "\<exists>row. results_row (stats s) = Inr row \<and>
           tasa_defectuosos row =
             (if productos_completados (stats s) \<noteq> 0 then
                of_int (productos_rechazados (stats s)) / of_int (productos_completados (stats s))
              else 0) \<and>
           0 \<le> tasa_defectuosos row \<and>
           (tasa_defectuosos row \<le> 1 \<longleftrightarrow>
              productos_completados (stats s) = 0 \<or>
              productos_rechazados (stats s) \<le> productos_completados (stats s))"
proof -
  from counters_ok_run [OF assms] have "0 \<le> productos_completados (stats s)"
    "0 \<le> productos_rechazados (stats s)" by (simp_all add: counters_ok_def)
  then show ?thesis by (simp add: results_row_eq divide_le_eq)
qed

theorem defect_rate_bounds_witness:
  "\<exists>s row. run three_products new_plant = Some s \<and> results_row (stats s) = Inr row \<and>
       tasa_defectuosos row = 2 \<and> 0 \<le> tasa_defectuosos row \<and>
       \<not> tasa_defectuosos row \<le> 1 \<and>
       \<not> (productos_completados (stats s) = 0 \<or>
          productos_rechazados (stats s) \<le> productos_completados (stats s))"
proof -
  from two_rejected_run obtain s P where r: "run two_rejected new_plant = Some s"
    and c: "productos_completados (stats s) = 0" "productos_rechazados (stats s) = 2"
    and P: "products s 3 = Some P" "pc P = Ret 5" "stage P = 4"
      "card (completed_stations P) = 5" "5 \<notin> completed_stations P"
    by blast
  from last_draw [OF P] c obtain s' where st: "step (Resume 3 (1 / 2) 0) s = Some s'"
    and c': "productos_completados (stats s') = 1" "productos_rechazados (stats s') = 2"
    by auto
  from r st have r': "run three_products new_plant = Some s'"
    by (simp add: three_products_def run_append)
  from defect_rate_bounds [OF r'] c' obtain row where
    "results_row (stats s') = Inr row" "tasa_defectuosos row = 2"
    "0 \<le> tasa_defectuosos row"
    by auto
  with r' c' show ?thesis by auto
qed

text \<open>
  The claim itself fails: in the run \<open>three_products\<close> two products are rejected and one
  is completed, and the reported defect rate is 2.
\<close>

theorem defect_rate_counterexample:
  "(case run three_products new_plant of
      None \<Rightarrow> False
    | Some s \<Rightarrow>
        productos_rechazados (stats s) = 2 \<and> productos_completados (stats s) = 1 \<and>
        (case results_row (stats s) of
           Inl e \<Rightarrow> False
         | Inr row \<Rightarrow> tasa_defectuosos row = 2 \<and> \<not> tasa_defectuosos row \<le> 1))"
proof -
  from two_rejected_run obtain s P where r: "run two_rejected new_plant = Some s"
    and c: "productos_completados (stats s) = 0" "productos_rechazados (stats s) = 2"
    and P: "products s 3 = Some P" "pc P = Ret 5" "stage P = 4"
      "card (completed_stations P) = 5" "5 \<notin> completed_stations P"
    by blast
  from last_draw [OF P] c obtain s' where st: "step (Resume 3 (1 / 2) 0) s = Some s'"
    and c': "productos_completados (stats s') = 1" "productos_rechazados (stats s') = 2"
    by auto
  from r st have r': "run three_products new_plant = Some s'"
    by (simp add: three_products_def run_append)
  show ?thesis unfolding r' using c' by (simp add: results_row_eq)
qed

subsection \<open>Who holds what\<close>

lemma members_request:
  "set (members (request p r)) = insert p (set (members r))"
  by (auto simp: members_def request_def)

lemma distinct_request:
  "distinct (members r) \<Longrightarrow> p \<notin> set (members r) \<Longrightarrow> distinct (members (request p r))"
  by (auto simp: members_def request_def)

lemma users_request: "q \<in> set (users r) \<Longrightarrow> q \<in> set (users (request p r))"
  by (simp add: request_def)

lemma members_release:
  assumes "distinct (members r)"
  shows "set (members (release p r)) = set (members r) - {p} \<union> (set (queue r) \<inter> {p})"
  using assms
  by (cases "queue r") (auto simp: members_def release_def Let_def)

lemma members_release_holder:
  assumes "distinct (members r)" and "p \<in> set (users r)"
  shows "set (members (release p r)) = set (members r) - {p}"
  using assms members_release [OF assms(1), of p]
  by (auto simp: members_def)

lemma distinct_release:
  assumes "distinct (members r)"
  shows "distinct (members (release p r))"
  using assms
  by (cases "queue r") (auto simp: members_def release_def Let_def)

lemma users_release: "q \<in> set (users r) \<Longrightarrow> q \<noteq> p \<Longrightarrow> q \<in> set (users (release p r))"
  by (cases "queue r") (auto simp: release_def Let_def)

lemma not_holder_release:
  assumes "distinct (members r)" and "p \<in> set (users r)"
  shows "p \<notin> set (users (release p r))"
proof -
  from members_release_holder [OF assms] have "p \<notin> set (members (release p r))" by simp
  then show ?thesis by (simp add: members_def)
qed

lemma length_remove1_mem: "p \<in> set xs \<Longrightarrow> length (remove1 p xs) = length xs - 1"
  by (simp add: length_remove1)

lemma release_count:
  assumes "p \<in> set (users r)" and "length (users r) \<le> capacity r"
  shows "length (users (release p r)) =
           (if queue r = [] then length (users r) - 1 else length (users r))"
proof -
  from assms(1) obtain n where n: "length (users r) = Suc n"
    by (cases "users r") auto
  from assms(1) have l: "length (remove1 p (users r)) = n"
    using n by (simp add: length_remove1)
  with n assms(2) have "length (remove1 p (users r)) < capacity r" by simp
  with l n show ?thesis
    by (cases "queue r") (simp_all add: release_def Let_def)
qed

lemma holders_not_member:
  "holders_ok s \<Longrightarrow> products s p = Some P \<Longrightarrow> \<not> in_process (pc P) j \<Longrightarrow>
   p \<notin> set (members (resource (stations s j)))"
  unfolding holders_ok_def by (metis option.inject)

lemma holders_not_member_pool:
  "holders_ok s \<Longrightarrow> products s p = Some P \<Longrightarrow> \<not> in_restock (pc P) \<Longrightarrow>
   p \<notin> set (members (restockers s))"
  unfolding holders_ok_def by (metis option.inject)

lemma holders_user:
  "holders_ok s \<Longrightarrow> products s p = Some P \<Longrightarrow> holds_station (pc P) j \<Longrightarrow>
   p \<in> set (users (resource (stations s j)))"
  unfolding holders_ok_def by blast

lemma holders_user_pool:
  "holders_ok s \<Longrightarrow> products s p = Some P \<Longrightarrow> holds_pool (pc P) \<Longrightarrow>
   p \<in> set (users (restockers s))"
  unfolding holders_ok_def by blast

lemma holders_distinct:
  "holders_ok s \<Longrightarrow> distinct (members (resource (stations s j)))"
  "holders_ok s \<Longrightarrow> distinct (members (restockers s))"
  unfolding holders_ok_def by blast+

lemma holders_gen:
  assumes ok: "holders_ok s" and P: "products s p = Some P"
    and P': "products s' = (products s)(p \<mapsto> P')"
    and d: "\<And>j. distinct (members (resource (stations s' j)))"
    and m: "\<And>j q. q \<in> set (members (resource (stations s' j))) \<Longrightarrow> q \<noteq> p \<Longrightarrow>
              q \<in> set (members (resource (stations s j)))"
    and mp: "\<And>j. p \<in> set (members (resource (stations s' j))) \<Longrightarrow> in_process (pc P') j"
    and u: "\<And>j q. q \<in> set (users (resource (stations s j))) \<Longrightarrow> q \<noteq> p \<Longrightarrow>
              q \<in> set (users (resource (stations s' j)))"
    and up: "\<And>j. holds_station (pc P') j \<Longrightarrow> p \<in> set (users (resource (stations s' j)))"
    and dr: "distinct (members (restockers s'))"
    and mr: "\<And>q. q \<in> set (members (restockers s')) \<Longrightarrow> q \<noteq> p \<Longrightarrow>
              q \<in> set (members (restockers s))"
    and mpr: "p \<in> set (members (restockers s')) \<Longrightarrow> in_restock (pc P')"
    and ur: "\<And>q. q \<in> set (users (restockers s)) \<Longrightarrow> q \<noteq> p \<Longrightarrow>
              q \<in> set (users (restockers s'))"
    and upr: "holds_pool (pc P') \<Longrightarrow> p \<in> set (users (restockers s'))"
  shows "holders_ok s'"
  unfolding holders_ok_def
proof (intro conjI allI impI)
  fix j
  show "distinct (members (resource (stations s' j)))" by (rule d)
next
  fix j q
  assume q: "q \<in> set (members (resource (stations s' j)))"
  show "\<exists>Q. products s' q = Some Q \<and> in_process (pc Q) j"
  proof (cases "q = p")
    case True
    with q mp [of j] show ?thesis by (simp add: P')
  next
    case False
    from m [OF q False] ok obtain Q where "products s q = Some Q" "in_process (pc Q) j"
      unfolding holders_ok_def by blast
    with False show ?thesis by (simp add: P')
  qed
next
  fix j q Q
  assume Q: "products s' q = Some Q" and h: "holds_station (pc Q) j"
  show "q \<in> set (users (resource (stations s' j)))"
  proof (cases "q = p")
    case True
    with Q have "Q = P'" by (simp add: P')
    with h up [of j] True show ?thesis by simp
  next
    case False
    with Q have "products s q = Some Q" by (simp add: P')
    from u [OF holders_user [OF ok this h] False] show ?thesis .
  qed
next
  show "distinct (members (restockers s'))" by (rule dr)
next
  fix q
  assume q: "q \<in> set (members (restockers s'))"
  show "\<exists>Q. products s' q = Some Q \<and> in_restock (pc Q)"
  proof (cases "q = p")
    case True
    with q mpr show ?thesis by (simp add: P')
  next
    case False
    from mr [OF q False] ok obtain Q where "products s q = Some Q" "in_restock (pc Q)"
      unfolding holders_ok_def by blast
    with False show ?thesis by (simp add: P')
  qed
next
  fix q Q
  assume Q: "products s' q = Some Q" and h: "holds_pool (pc Q)"
  show "q \<in> set (users (restockers s'))"
  proof (cases "q = p")
    case True
    with Q have "Q = P'" by (simp add: P')
    with h upr True show ?thesis by simp
  next
    case False
    with Q have "products s q = Some Q" by (simp add: P')
    from ur [OF holders_user_pool [OF ok this h] False] show ?thesis .
  qed
qed

text \<open>A segment that touches no resource.\<close>

lemma holders_pc:
  assumes ok: "holders_ok s" and P: "products s p = Some P"
    and P': "products s' = (products s)(p \<mapsto> P')"
    and st: "\<And>j. resource (stations s' j) = resource (stations s j)"
    and rs: "restockers s' = restockers s"
    and a1: "\<And>j. in_process (pc P) j \<Longrightarrow> in_process (pc P') j"
    and a2: "\<And>j. holds_station (pc P') j \<Longrightarrow>
               holds_station (pc P) j \<or> p \<in> set (users (resource (stations s j)))"
    and a3: "in_restock (pc P) \<Longrightarrow> in_restock (pc P')"
    and a4: "holds_pool (pc P') \<Longrightarrow> holds_pool (pc P) \<or> p \<in> set (users (restockers s))"
  shows "holders_ok s'"
proof (rule holders_gen [OF ok P P'])
  fix j
  show "distinct (members (resource (stations s' j)))"
    using holders_distinct(1) [OF ok] by (simp add: st)
  show "in_process (pc P') j" if "p \<in> set (members (resource (stations s' j)))"
    using that holders_not_member [OF ok P, of j] a1 [of j] by (auto simp: st)
  show "p \<in> set (users (resource (stations s' j)))" if "holds_station (pc P') j"
    using a2 [OF that] holders_user [OF ok P, of j] by (auto simp: st)
next
  fix j q
  show "q \<in> set (members (resource (stations s j)))"
    if "q \<in> set (members (resource (stations s' j)))" using that by (simp add: st)
  show "q \<in> set (users (resource (stations s' j)))"
    if "q \<in> set (users (resource (stations s j)))" using that by (simp add: st)
next
  show "distinct (members (restockers s'))" using holders_distinct(2) [OF ok] by (simp add: rs)
  show "in_restock (pc P')" if "p \<in> set (members (restockers s'))"
    using that holders_not_member_pool [OF ok P] a3 by (auto simp: rs)
  show "p \<in> set (users (restockers s'))" if "holds_pool (pc P')"
    using a4 [OF that] holders_user_pool [OF ok P] by (auto simp: rs)
next
  fix q
  show "q \<in> set (members (restockers s))" if "q \<in> set (members (restockers s'))"
    using that by (simp add: rs)
  show "q \<in> set (users (restockers s'))" if "q \<in> set (users (restockers s))"
    using that by (simp add: rs)
qed

lemma holds_station_unique: "holds_station c j \<Longrightarrow> in_process c i \<Longrightarrow> i = j"
  by (cases c) auto

lemma holds_station_in_process: "holds_station c j \<Longrightarrow> in_process c j"
  by (cases c) auto

lemma holders_station_request:
  assumes ok: "holders_ok s" and P: "products s p = Some P" and c: "pc P = Call j"
    and P': "products s' = (products s)(p \<mapsto> P')" and c': "pc P' = Req j"
    and st: "\<And>i. resource (stations s' i) =
               (if i = j then request p (resource (stations s j)) else resource (stations s i))"
    and rs: "restockers s' = restockers s"
  shows "holders_ok s'"
proof (rule holders_gen [OF ok P P'])
  have nm: "p \<notin> set (members (resource (stations s i)))" for i
    using holders_not_member [OF ok P, of i] c by simp
  have nmr: "p \<notin> set (members (restockers s))"
    using holders_not_member_pool [OF ok P] c by simp
  fix i
  show "distinct (members (resource (stations s' i)))"
    using holders_distinct(1) [OF ok, of i] nm [of i]
    by (cases "i = j") (simp_all add: st distinct_request)
  show "in_process (pc P') i" if "p \<in> set (members (resource (stations s' i)))"
    using that nm [of i] by (cases "i = j") (simp_all add: st c')
  show "p \<in> set (users (resource (stations s' i)))" if "holds_station (pc P') i"
    using that by (simp add: c')
  show "distinct (members (restockers s'))"
    using holders_distinct(2) [OF ok] by (simp add: rs)
  show "in_restock (pc P')" if "p \<in> set (members (restockers s'))"
    using that nmr by (simp add: rs)
  show "p \<in> set (users (restockers s'))" if "holds_pool (pc P')"
    using that by (simp add: c')
next
  fix i q
  show "q \<in> set (members (resource (stations s i)))"
    if "q \<in> set (members (resource (stations s' i)))" "q \<noteq> p"
    using that by (cases "i = j") (simp_all add: st members_request)
  show "q \<in> set (users (resource (stations s' i)))"
    if "q \<in> set (users (resource (stations s i)))" "q \<noteq> p"
    using that by (cases "i = j") (simp_all add: st users_request)
next
  fix q
  show "q \<in> set (members (restockers s))" if "q \<in> set (members (restockers s'))"
    using that by (simp add: rs)
  show "q \<in> set (users (restockers s'))" if "q \<in> set (users (restockers s))"
    using that by (simp add: rs)
qed

lemma holders_station_release:
  assumes ok: "holders_ok s" and P: "products s p = Some P"
    and h: "holds_station (pc P) j" and nr: "\<not> in_restock (pc P)"
    and P': "products s' = (products s)(p \<mapsto> P')" and c': "pc P' = Ret j"
    and st: "\<And>i. resource (stations s' i) =
               (if i = j then release p (resource (stations s j)) else resource (stations s i))"
    and rs: "restockers s' = restockers s"
  shows "holders_ok s'"
proof (rule holders_gen [OF ok P P'])
  note dj = holders_distinct(1) [OF ok, of j]
  note uj = holders_user [OF ok P h]
  have nm: "p \<notin> set (members (resource (stations s i)))" if "i \<noteq> j" for i
    using holders_not_member [OF ok P, of i] holds_station_unique [OF h, of i] that by blast
  have nmj: "p \<notin> set (members (release p (resource (stations s j))))"
    by (simp add: members_release_holder [OF dj uj])
  have nmr: "p \<notin> set (members (restockers s))"
    using holders_not_member_pool [OF ok P nr] .
  fix i
  show "distinct (members (resource (stations s' i)))"
    using holders_distinct(1) [OF ok, of i]
    by (cases "i = j") (simp_all add: st distinct_release)
  show "in_process (pc P') i" if "p \<in> set (members (resource (stations s' i)))"
    using that nm [of i] nmj by (cases "i = j") (simp_all add: st)
  show "p \<in> set (users (resource (stations s' i)))" if "holds_station (pc P') i"
    using that by (simp add: c')
  show "distinct (members (restockers s'))"
    using holders_distinct(2) [OF ok] by (simp add: rs)
  show "in_restock (pc P')" if "p \<in> set (members (restockers s'))"
    using that nmr by (simp add: rs)
  show "p \<in> set (users (restockers s'))" if "holds_pool (pc P')"
    using that by (simp add: c')
next
  note dj = holders_distinct(1) [OF ok, of j]
  note uj = holders_user [OF ok P h]
  fix i q
  show "q \<in> set (members (resource (stations s i)))"
    if "q \<in> set (members (resource (stations s' i)))" "q \<noteq> p"
    using that by (cases "i = j") (simp_all add: st members_release_holder [OF dj uj])
  show "q \<in> set (users (resource (stations s' i)))"
    if "q \<in> set (users (resource (stations s i)))" "q \<noteq> p"
    using that by (cases "i = j") (simp_all add: st users_release)
next
  fix q
  show "q \<in> set (members (restockers s))" if "q \<in> set (members (restockers s'))"
    using that by (simp add: rs)
  show "q \<in> set (users (restockers s'))" if "q \<in> set (users (restockers s))"
    using that by (simp add: rs)
qed

lemma holders_pool_request:
  assumes ok: "holders_ok s" and P: "products s p = Some P" and c: "pc P = CallRestock j"
    and P': "products s' = (products s)(p \<mapsto> P')" and c': "pc P' = ReqPool j"
    and st: "\<And>i. resource (stations s' i) = resource (stations s i)"
    and rs: "restockers s' = request p (restockers s)"
  shows "holders_ok s'"
proof (rule holders_gen [OF ok P P'])
  have nmr: "p \<notin> set (members (restockers s))"
    using holders_not_member_pool [OF ok P] c by simp
  fix i
  show "distinct (members (resource (stations s' i)))"
    using holders_distinct(1) [OF ok, of i] by (simp add: st)
  show "in_process (pc P') i" if "p \<in> set (members (resource (stations s' i)))"
    using that holders_not_member [OF ok P, of i] c by (auto simp: st c')
  show "p \<in> set (users (resource (stations s' i)))" if "holds_station (pc P') i"
    using that holders_user [OF ok P, of i] c by (auto simp: st c')
  show "distinct (members (restockers s'))"
    using holders_distinct(2) [OF ok] nmr by (simp add: rs distinct_request)
  show "in_restock (pc P')" if "p \<in> set (members (restockers s'))"
    by (simp add: c')
  show "p \<in> set (users (restockers s'))" if "holds_pool (pc P')"
    using that by (simp add: c')
next
  fix i q
  show "q \<in> set (members (resource (stations s i)))"
    if "q \<in> set (members (resource (stations s' i)))" using that by (simp add: st)
  show "q \<in> set (users (resource (stations s' i)))"
    if "q \<in> set (users (resource (stations s i)))" using that by (simp add: st)
next
  fix q
  show "q \<in> set (members (restockers s))"
    if "q \<in> set (members (restockers s'))" "q \<noteq> p"
    using that by (simp add: rs members_request)
  show "q \<in> set (users (restockers s'))" if "q \<in> set (users (restockers s))"
    using that by (simp add: rs users_request)
qed

lemma holders_pool_release:
  assumes ok: "holders_ok s" and P: "products s p = Some P" and c: "pc P = Restock j t"
    and P': "products s' = (products s)(p \<mapsto> P')" and c': "pc P' = RestockRet j"
    and st: "\<And>i. resource (stations s' i) = resource (stations s i)"
    and rs: "restockers s' = release p (restockers s)"
  shows "holders_ok s'"
proof (rule holders_gen [OF ok P P'])
  note dr = holders_distinct(2) [OF ok]
  have ur: "p \<in> set (users (restockers s))"
    using holders_user_pool [OF ok P] c by simp
  fix i
  show "distinct (members (resource (stations s' i)))"
    using holders_distinct(1) [OF ok, of i] by (simp add: st)
  show "in_process (pc P') i" if "p \<in> set (members (resource (stations s' i)))"
    using that holders_not_member [OF ok P, of i] c by (auto simp: st c')
  show "p \<in> set (users (resource (stations s' i)))" if "holds_station (pc P') i"
    using that holders_user [OF ok P, of i] c by (auto simp: st c')
  show "distinct (members (restockers s'))"
    using dr by (simp add: rs distinct_release)
  show "in_restock (pc P')" if "p \<in> set (members (restockers s'))"
    using that by (simp add: rs members_release_holder [OF dr ur])
  show "p \<in> set (users (restockers s'))" if "holds_pool (pc P')"
    using that by (simp add: c')
next
  fix i q
  show "q \<in> set (members (resource (stations s i)))"
    if "q \<in> set (members (resource (stations s' i)))" using that by (simp add: st)
  show "q \<in> set (users (resource (stations s' i)))"
    if "q \<in> set (users (resource (stations s i)))" using that by (simp add: st)
next
  note dr = holders_distinct(2) [OF ok]
  have ur: "p \<in> set (users (restockers s))"
    using holders_user_pool [OF ok P] c by simp
  fix q
  show "q \<in> set (members (restockers s))"
    if "q \<in> set (members (restockers s'))" "q \<noteq> p"
    using that by (simp add: rs members_release_holder [OF dr ur])
  show "q \<in> set (users (restockers s'))" if "q \<in> set (users (restockers s))" "q \<noteq> p"
    using that by (simp add: rs users_release)
qed

lemma product_loop_pc:
  assumes "product_loop p P s = Some s'"
  shows "\<exists>c. products s' = (products s)(p \<mapsto> P\<lparr>pc := c\<rparr>) \<and> (c = Done \<or> (\<exists>j. c = Call j))"
  using assms by (auto simp: product_loop_def Let_def split: if_splits)

lemma product_return_pc:
  assumes "product_return p P j u s = Some s'"
  shows "\<exists>P'. products s' = (products s)(p \<mapsto> P') \<and> (pc P' = Done \<or> (\<exists>j. pc P' = Call j))"
proof -
  from assms obtain P1 s1 where pl: "product_loop p P1 s1 = Some s'"
    and s1: "products s1 = products s"
    by (auto simp: product_return_def Let_def split: if_splits)
  from product_loop_pc [OF pl] s1 show ?thesis by auto
qed

lemma outside_pc:
  assumes "c = Done \<or> (\<exists>j. c = Call j)"
  shows "\<not> in_process c i" "\<not> holds_station c i" "\<not> in_restock c" "\<not> holds_pool c"
  using assms by auto

lemma holders_resume:
  assumes ok: "holders_ok s" and P: "products s p = Some P"
    and re: "resume p P x y s = Some s'"
  shows "holders_ok s'"
proof (cases "pc P")
  case Init
  with re have pl: "product_loop p P s = Some s'" by (simp add: resume_def)
  from product_loop_pc [OF pl] obtain c where
    c: "products s' = (products s)(p \<mapsto> P\<lparr>pc := c\<rparr>)" "c = Done \<or> (\<exists>j. c = Call j)" by blast
  show ?thesis
    by (rule holders_pc [OF ok P c(1)])
      (use Init outside_pc [OF c(2)] product_loop_frame [OF pl] in simp_all)
next
  case (Call j)
  with re have s': "s' = set_pc p (Req j)
      (upd_station j (\<lambda>w. w\<lparr>resource := request p (resource w)\<rparr>) s)"
    by (simp add: resume_def)
  show ?thesis
    by (rule holders_station_request [OF ok P Call, of s' "P\<lparr>pc := Req j\<rparr>"])
      (simp_all add: s' P)
next
  case (Req j)
  with re have g: "p \<in> set (users (resource (stations s j)))"
    and s': "s' = station_body p j x s"
    by (auto simp: resume_def split: if_splits)
  show ?thesis
  proof (cases "raw_material (stations s j) \<le> 0")
    case True
    show ?thesis
      by (rule holders_pc [OF ok P, of s' "P\<lparr>pc := CallRestock j\<rparr>"])
        (use True Req g in \<open>auto simp: s' P station_body_def\<close>)
  next
    case False
    show ?thesis
      by (rule holders_pc [OF ok P, of s' "P\<lparr>pc := Work j (now s) (max 0 x)\<rparr>"])
        (use False Req g in \<open>auto simp: s' P station_body_def Let_def\<close>)
  qed
next
  case (CallRestock j)
  with re have s': "s' = set_pc p (ReqPool j) (s\<lparr>restockers := request p (restockers s)\<rparr>)"
    by (simp add: resume_def)
  show ?thesis
    by (rule holders_pool_request [OF ok P CallRestock, of s' "P\<lparr>pc := ReqPool j\<rparr>"])
      (simp_all add: s' P)
next
  case (ReqPool j)
  with re have g: "p \<in> set (users (restockers s))"
    and s': "s' = set_pc p (Restock j (now s + max 0 x))
      (upd_stats (\<lambda>st. st\<lparr>uso_dispositivo_suministro :=
         uso_dispositivo_suministro st + max 0 x\<rparr>) s)"
    by (auto simp: resume_def Let_def split: if_splits)
  show ?thesis
    by (rule holders_pc [OF ok P, of s' "P\<lparr>pc := Restock j (now s + max 0 x)\<rparr>"])
      (use ReqPool g in \<open>auto simp: s' P\<close>)
next
  case (Restock j t)
  with re have s': "s' = set_pc p (RestockRet j)
      (upd_station j (\<lambda>w. w\<lparr>raw_material := 25\<rparr>)
        (s\<lparr>now := t, restockers := release p (restockers s)\<rparr>))"
    by (auto simp: resume_def split: if_splits)
  show ?thesis
    by (rule holders_pool_release [OF ok P Restock, of s' "P\<lparr>pc := RestockRet j\<rparr>"])
      (simp_all add: s' P)
next
  case (RestockRet j)
  with re have s': "s' = station_body p j x s" by (simp add: resume_def)
  show ?thesis
  proof (cases "raw_material (stations s j) \<le> 0")
    case True
    show ?thesis
      by (rule holders_pc [OF ok P, of s' "P\<lparr>pc := CallRestock j\<rparr>"])
        (use True RestockRet in \<open>auto simp: s' P station_body_def\<close>)
  next
    case False
    show ?thesis
      by (rule holders_pc [OF ok P, of s' "P\<lparr>pc := Work j (now s) (max 0 x)\<rparr>"])
        (use False RestockRet in \<open>auto simp: s' P station_body_def Let_def\<close>)
  qed
next
  case (Work j t0 d)
  with re have s': "s' = station_finish p j d x y (s\<lparr>now := t0 + d\<rparr>)"
    by (auto simp: resume_def split: if_splits)
  show ?thesis
  proof (cases "(processed_count (stations s j) + 1) mod 5 = 0 \<and> x < failure_probability j")
    case True
    show ?thesis
      by (rule holders_pc [OF ok P, of s' "P\<lparr>pc := Repair j (t0 + d + y)\<rparr>"])
        (use True Work in \<open>auto simp: s' P station_finish_def Let_def\<close>)
  next
    case False
    show ?thesis
      by (rule holders_station_release [OF ok P, of j s' "P\<lparr>pc := Ret j\<rparr>"])
        (use False Work in \<open>auto simp: s' P station_finish_def Let_def\<close>)
  qed
next
  case (Repair j t)
  with re have s': "s' = set_pc p (Ret j)
      (upd_station j (\<lambda>w. w\<lparr>resource := release p (resource w)\<rparr>) (s\<lparr>now := t\<rparr>))"
    by (auto simp: resume_def split: if_splits)
  show ?thesis
    by (rule holders_station_release [OF ok P, of j s' "P\<lparr>pc := Ret j\<rparr>"])
      (use Repair in \<open>simp_all add: s' P\<close>)
next
  case (Ret j)
  with re have pr: "product_return p P j x s = Some s'"
    by (auto simp: resume_def split: if_splits)
  from product_return_pc [OF pr] obtain P' where
    c: "products s' = (products s)(p \<mapsto> P')" "pc P' = Done \<or> (\<exists>j. pc P' = Call j)" by blast
  show ?thesis
    by (rule holders_pc [OF ok P c(1)])
      (use Ret outside_pc [OF c(2)] product_return_frame [OF pr] in simp_all)
next
  case Done
  with re show ?thesis by (simp add: resume_def)
qed

lemma holders_arrive:
  assumes ok: "holders_ok s" and none: "products s n = None"
    and s': "products s' = (products s)(n \<mapsto> new_product)"
      "stations s' = stations s" "restockers s' = restockers s"
  shows "holders_ok s'"
  unfolding holders_ok_def
proof (intro conjI allI impI)
  fix j
  show "distinct (members (resource (stations s' j)))"
    using holders_distinct(1) [OF ok, of j] by (simp add: s')
next
  fix j q
  assume "q \<in> set (members (resource (stations s' j)))"
  with ok obtain Q where Q: "products s q = Some Q" "in_process (pc Q) j"
    unfolding holders_ok_def s' by blast
  with none have "q \<noteq> n" by auto
  with Q show "\<exists>Q. products s' q = Some Q \<and> in_process (pc Q) j" by (simp add: s')
next
  fix j q Q
  assume Q: "products s' q = Some Q" "holds_station (pc Q) j"
  then have "q \<noteq> n" by (auto simp: s' new_product_def)
  with Q have "products s q = Some Q" by (simp add: s')
  from holders_user [OF ok this Q(2)]
  show "q \<in> set (users (resource (stations s' j)))" by (simp add: s')
next
  show "distinct (members (restockers s'))" using holders_distinct(2) [OF ok] by (simp add: s')
next
  fix q
  assume "q \<in> set (members (restockers s'))"
  with ok obtain Q where Q: "products s q = Some Q" "in_restock (pc Q)"
    unfolding holders_ok_def s' by blast
  with none have "q \<noteq> n" by auto
  with Q show "\<exists>Q. products s' q = Some Q \<and> in_restock (pc Q)" by (simp add: s')
next
  fix q Q
  assume Q: "products s' q = Some Q" "holds_pool (pc Q)"
  then have "q \<noteq> n" by (auto simp: s' new_product_def)
  with Q have "products s q = Some Q" by (simp add: s')
  from holders_user_pool [OF ok this Q(2)]
  show "q \<in> set (users (restockers s'))" by (simp add: s')
qed

lemma holders_step:
  assumes "products_ok s \<and> holders_ok s" and st: "step l s = Some s'"
  shows "products_ok s' \<and> holders_ok s'"
proof
  from assms have pk: "products_ok s" and ok: "holders_ok s" by simp_all
  show "products_ok s'" by (rule products_ok_step [OF pk st])
  show "holders_ok s'"
  proof (cases l)
    case (Arrive d)
    show ?thesis
    proof (cases "arrivals s")
      case GenStart
      with st Arrive have "s' = s\<lparr>arrivals := GenWait (now s + d)\<rparr>"
        by (auto split: if_splits)
      with ok show ?thesis by (simp add: holders_ok_def)
    next
      case (GenWait t)
      with st Arrive have s': "s' = s\<lparr>now := t, product_count := product_count s + 1,
           products := (products s)(product_count s + 1 \<mapsto> new_product),
           arrivals := GenWait (t + d)\<rparr>"
        by (auto split: if_splits)
      from pk have "products s (product_count s + 1) = None"
        unfolding products_ok_def by (metis Suc_eq_plus1 Suc_n_not_le_n)
      from holders_arrive [OF ok this, of s'] show ?thesis by (simp add: s')
    qed
  next
    case (Resume p x y)
    with st obtain P where P: "products s p = Some P" and re: "resume p P x y s = Some s'"
      by (auto split: option.splits)
    from holders_resume [OF ok P re] show ?thesis .
  qed
qed

lemma holders_new: "products_ok new_plant \<and> holders_ok new_plant"
proof
  show "products_ok new_plant" by (rule products_ok_new)
  show "holders_ok new_plant"
    by (simp add: holders_ok_def members_def new_plant_def new_station_def)
qed

lemma holders_run: "run ls new_plant = Some s \<Longrightarrow> products_ok s \<and> holders_ok s"
  by (rule run_invariant [of ls new_plant s "\<lambda>s. products_ok s \<and> holders_ok s",
        OF _ holders_new holders_step])

lemma process_exit:
  assumes re: "resume p P x y s = Some s'" and P: "products s p = Some P"
    and P': "products s' p = Some P'"
    and i: "in_process (pc P) j" and o: "\<not> in_process (pc P') j"
  shows "pc P' = Ret j \<and> holds_station (pc P) j \<and>
         resource (stations s' j) = release p (resource (stations s j))"
proof (cases "pc P")
  case (Req k)
  with re P P' i o show ?thesis
    by (auto simp: resume_def station_body_def Let_def split: if_splits)
next
  case (CallRestock k)
  with re P P' i o show ?thesis by (auto simp: resume_def)
next
  case (ReqPool k)
  with re P P' i o show ?thesis by (auto simp: resume_def Let_def split: if_splits)
next
  case (Restock k t)
  with re P P' i o show ?thesis by (auto simp: resume_def split: if_splits)
next
  case (RestockRet k)
  with re P P' i o show ?thesis
    by (auto simp: resume_def station_body_def Let_def split: if_splits)
next
  case (Work k t0 d)
  with re P P' i o show ?thesis
    by (auto simp: resume_def station_finish_def Let_def split: if_splits)
next
  case (Repair k t)
  with re P P' i o show ?thesis by (auto simp: resume_def split: if_splits)
qed (use i in simp_all)

lemma restock_exit:
  assumes re: "resume p P x y s = Some s'" and P: "products s p = Some P"
    and P': "products s' p = Some P'"
    and i: "in_restock (pc P)" and o: "\<not> in_restock (pc P')"
  shows "(\<exists>j. pc P' = RestockRet j) \<and> holds_pool (pc P) \<and>
         restockers s' = release p (restockers s)"
proof (cases "pc P")
  case (ReqPool k)
  with re P P' i o show ?thesis by (auto simp: resume_def Let_def split: if_splits)
next
  case (Restock k t)
  with re P P' i o show ?thesis by (auto simp: resume_def split: if_splits)
qed (use i in simp_all)

text \<open>
  Claim C6, as the code has it. After any run a product is among the holders of a
  station's resource only while it is inside the \<^verbatim>\<open>with\<close> block of that station's
  \<^verbatim>\<open>process\<close>, and among the holders of the pool only while it is inside the block of
  \<^verbatim>\<open>restock\<close>. A segment in which a product leaves the block of \<^verbatim>\<open>process\<close>, on the
  path without a failure or after a repair, ends that process, releases the station's
  resource and leaves the product out of its holders; a segment in which it leaves the
  block of \<^verbatim>\<open>restock\<close> ends the restock, releases the pool and leaves the product out of
  its holders. The release takes one holder away, and in the same step the slot goes to
  the head of the wait queue if there is one, so the number of holders drops by one when
  nobody waits and is unchanged otherwise.
\<close>

theorem released_on_every_exit:
  assumes "run ls new_plant = Some s"
  shows "(\<forall>p P j. products s p = Some P \<longrightarrow> \<not> in_process (pc P) j \<longrightarrow>
            p \<notin> set (users (resource (stations s j)))) \<and>
         (\<forall>p P. products s p = Some P \<longrightarrow> \<not> in_restock (pc P) \<longrightarrow>
            p \<notin> set (users (restockers s))) \<and>
         (\<forall>p x y s' P P' j. step (Resume p x y) s = Some s' \<longrightarrow> products s p = Some P \<longrightarrow>
            products s' p = Some P' \<longrightarrow> in_process (pc P) j \<longrightarrow> \<not> in_process (pc P') j \<longrightarrow>
            pc P' = Ret j \<and>
            p \<in> set (users (resource (stations s j))) \<and>
            p \<notin> set (users (resource (stations s' j))) \<and>
            resource (stations s' j) = release p (resource (stations s j)) \<and>
            length (users (resource (stations s' j))) =
              (if queue (resource (stations s j)) = []
               then length (users (resource (stations s j))) - 1
               else length (users (resource (stations s j))))) \<and>
         (\<forall>p x y s' P P'. step (Resume p x y) s = Some s' \<longrightarrow> products s p = Some P \<longrightarrow>
            products s' p = Some P' \<longrightarrow> in_restock (pc P) \<longrightarrow> \<not> in_restock (pc P') \<longrightarrow>
            (\<exists>j. pc P' = RestockRet j) \<and>
            p \<in> set (users (restockers s)) \<and>
            p \<notin> set (users (restockers s')) \<and>
            restockers s' = release p (restockers s) \<and>
            length (users (restockers s')) =
              (if queue (restockers s) = [] then length (users (restockers s)) - 1
               else length (users (restockers s))))"
proof (intro conjI allI impI)
  from holders_run [OF assms] have ok: "holders_ok s" by simp
  from res_ok_run [OF assms] have ro: "res_ok s" .
  {
    fix p P j
    assume "products s p = Some P" "\<not> in_process (pc P) j"
    from holders_not_member [OF ok this]
    show "p \<notin> set (users (resource (stations s j)))" by (simp add: members_def)
  }
  {
    fix p P
    assume "products s p = Some P" "\<not> in_restock (pc P)"
    from holders_not_member_pool [OF ok this]
    show "p \<notin> set (users (restockers s))" by (simp add: members_def)
  }
  {
    fix p x y s' P P' j
    assume st: "step (Resume p x y) s = Some s'" and P: "products s p = Some P"
      and P': "products s' p = Some P'" and i: "in_process (pc P) j"
      and o: "\<not> in_process (pc P') j"
    from st P have re: "resume p P x y s = Some s'" by simp
    note ex = process_exit [OF re P P' i o]
    from ex show "pc P' = Ret j" by simp
    from ex holders_user [OF ok P] show u: "p \<in> set (users (resource (stations s j)))"
      by simp
    from ex show r: "resource (stations s' j) = release p (resource (stations s j))" by simp
    from not_holder_release [OF holders_distinct(1) [OF ok] u]
    show "p \<notin> set (users (resource (stations s' j)))" by (simp add: r)
    from ro have "length (users (resource (stations s j))) \<le> capacity (resource (stations s j))"
      by (simp add: res_ok_def)
    from release_count [OF u this]
    show "length (users (resource (stations s' j))) =
              (if queue (resource (stations s j)) = []
               then length (users (resource (stations s j))) - 1
               else length (users (resource (stations s j))))" by (simp add: r)
  }
  {
    fix p x y s' P P'
    assume st: "step (Resume p x y) s = Some s'" and P: "products s p = Some P"
      and P': "products s' p = Some P'" and i: "in_restock (pc P)"
      and o: "\<not> in_restock (pc P')"
    from st P have re: "resume p P x y s = Some s'" by simp
    note ex = restock_exit [OF re P P' i o]
    from ex show "\<exists>j. pc P' = RestockRet j" by simp
    from ex holders_user_pool [OF ok P] show u: "p \<in> set (users (restockers s))" by simp
    from ex show r: "restockers s' = release p (restockers s)" by simp
    from not_holder_release [OF holders_distinct(2) [OF ok] u]
    show "p \<notin> set (users (restockers s'))" by (simp add: r)
    from ro have "length (users (restockers s)) \<le> capacity (restockers s)"
      by (simp add: res_ok_def)
    from release_count [OF u this]
    show "length (users (restockers s')) =
              (if queue (restockers s) = [] then length (users (restockers s)) - 1
               else length (users (restockers s)))" by (simp add: r)
  }
qed

theorem released_on_every_exit_witness:
  "\<exists>s s' t t'.
     run contended new_plant = Some s \<and> step (Resume 1 (1 / 2) 0) s = Some s' \<and>
     map_option pc (products s 1) = Some (Work 0 1 4) \<and>
     map_option pc (products s' 1) = Some (Ret 0) \<and>
     1 \<in> set (users (resource (stations s 0))) \<and>
     1 \<notin> set (users (resource (stations s' 0))) \<and>
     resource (stations s' 0) = release 1 (resource (stations s 0)) \<and>
     queue (resource (stations s 0)) \<noteq> [] \<and>
     length (users (resource (stations s' 0))) = length (users (resource (stations s 0))) \<and>
     run (drain @ [Resume 26 2 0]) new_plant = Some t \<and> step (Resume 26 0 0) t = Some t' \<and>
     map_option pc (products t 26) = Some (Restock 0 4927) \<and>
     map_option pc (products t' 26) = Some (RestockRet 0) \<and>
     26 \<in> set (users (restockers t)) \<and> 26 \<notin> set (users (restockers t')) \<and>
     restockers t' = release 26 (restockers t) \<and> queue (restockers t) = [] \<and>
     length (users (restockers t')) = length (users (restockers t)) - 1"
proof -
  from contended_run obtain s where r: "run contended new_plant = Some s"
    and f: "now s = 2"
      "products s 1 = Some \<lparr>stage = 0, completed_stations = {}, pc = Work 0 1 4\<rparr>"
      "queue (resource (stations s 0)) = [2]" "processed_count (stations s 0) = 0"
    by blast
  from f have "\<exists>s' P'. step (Resume 1 (1 / 2) 0) s = Some s' \<and> products s' 1 = Some P' \<and>
      pc P' = Ret 0"
    by (simp add: resume_def station_finish_def fires_def horizon_def uniform_draw_def
        expo_draw_def Let_def)
  then obtain s' P' where st: "step (Resume 1 (1 / 2) 0) s = Some s'"
    and P': "products s' 1 = Some P'" "pc P' = Ret 0" by blast
  note c = released_on_every_exit [OF r, THEN conjunct2, THEN conjunct2, THEN conjunct1,
      rule_format, OF st f(2) P'(1), of 0]
  have "in_process (pc \<lparr>stage = 0, completed_stations = {}, pc = Work 0 1 4\<rparr>) 0" by simp
  moreover have "\<not> in_process (pc P') 0" using P'(2) by simp
  ultimately have c: "pc P' = Ret 0 \<and>
            1 \<in> set (users (resource (stations s 0))) \<and>
            1 \<notin> set (users (resource (stations s' 0))) \<and>
            resource (stations s' 0) = release 1 (resource (stations s 0)) \<and>
            length (users (resource (stations s' 0))) =
              (if queue (resource (stations s 0)) = []
               then length (users (resource (stations s 0))) - 1
               else length (users (resource (stations s 0))))" by (rule c)
  from c have a1: "1 \<in> set (users (resource (stations s 0)))"
    and a2: "1 \<notin> set (users (resource (stations s' 0)))"
    and a3: "resource (stations s' 0) = release 1 (resource (stations s 0))"
    by blast+
  from c have "length (users (resource (stations s' 0))) =
      (if queue (resource (stations s 0)) = []
       then length (users (resource (stations s 0))) - 1
       else length (users (resource (stations s 0))))" by blast
  with f(3) have a4: "length (users (resource (stations s' 0))) =
      length (users (resource (stations s 0)))" by simp
  from drain_run obtain t0 where r0: "run drain new_plant = Some t0"
    and g0: "now t0 = 4925"
      "products t0 26 = Some \<lparr>stage = 0, completed_stations = {}, pc = ReqPool 0\<rparr>"
      "users (restockers t0) = [26]" "queue (restockers t0) = []"
    by blast
  from g0 have "\<exists>t. step (Resume 26 2 0) t0 = Some t \<and> now t = 4925 \<and>
      queue (restockers t) = [] \<and>
      products t 26 = Some \<lparr>stage = 0, completed_stations = {}, pc = Restock 0 4927\<rparr>"
    by (simp add: resume_def Let_def)
  then obtain t where s1: "step (Resume 26 2 0) t0 = Some t"
    and g1: "now t = 4925" "queue (restockers t) = []"
      "products t 26 = Some \<lparr>stage = 0, completed_stations = {}, pc = Restock 0 4927\<rparr>"
    by blast
  from r0 s1 have r1: "run (drain @ [Resume 26 2 0]) new_plant = Some t"
    by (simp add: run_append)
  from g1 have "\<exists>t' Q'. step (Resume 26 0 0) t = Some t' \<and> products t' 26 = Some Q' \<and>
      pc Q' = RestockRet 0"
    by (simp add: resume_def fires_def horizon_def)
  then obtain t' Q' where s2: "step (Resume 26 0 0) t = Some t'"
    and Q': "products t' 26 = Some Q'" "pc Q' = RestockRet 0" by blast
  note e = released_on_every_exit [OF r1, THEN conjunct2, THEN conjunct2, THEN conjunct2,
      rule_format, OF s2 g1(3) Q'(1)]
  have "in_restock (pc \<lparr>stage = 0, completed_stations = {}, pc = Restock 0 4927\<rparr>)" by simp
  moreover have "\<not> in_restock (pc Q')" using Q'(2) by simp
  ultimately have e: "(\<exists>j. pc Q' = RestockRet j) \<and>
            26 \<in> set (users (restockers t)) \<and>
            26 \<notin> set (users (restockers t')) \<and>
            restockers t' = release 26 (restockers t) \<and>
            length (users (restockers t')) =
              (if queue (restockers t) = [] then length (users (restockers t)) - 1
               else length (users (restockers t)))" by (rule e)
  from e have b1: "26 \<in> set (users (restockers t))"
    and b2: "26 \<notin> set (users (restockers t'))"
    and b3: "restockers t' = release 26 (restockers t)"
    by blast+
  from e have "length (users (restockers t')) =
      (if queue (restockers t) = [] then length (users (restockers t)) - 1
       else length (users (restockers t)))" by blast
  with g1(2) have b4: "length (users (restockers t')) = length (users (restockers t)) - 1"
    by simp
  have c1: "map_option pc (products s 1) = Some (Work 0 1 4)" using f(2) by simp
  have c2: "map_option pc (products s' 1) = Some (Ret 0)" using P' by simp
  have c3: "queue (resource (stations s 0)) \<noteq> []" using f(3) by simp
  have d1: "map_option pc (products t 26) = Some (Restock 0 4927)" using g1(3) by simp
  have d2: "map_option pc (products t' 26) = Some (RestockRet 0)" using Q' by simp
  from r st c1 c2 a1 a2 a3 c3 a4 r1 s2 d1 d2 b1 b2 b3 g1(2) b4 show ?thesis
    by blast
qed

text \<open>
  The claim's last clause fails. When the first product is about to acquire the resource
  of station 0 nobody holds it; when its invocation of \<^verbatim>\<open>process\<close> has returned, the
  slot has gone to the second product, which was waiting, and the resource has one
  holder.
\<close>

theorem holder_count_counterexample:
  "(case run before_acquire new_plant of
      None \<Rightarrow> False
    | Some s \<Rightarrow>
        map_option pc (products s 1) = Some (Call 0) \<and>
        length (users (resource (stations s 0))) = 0) \<and>
   (case run (contended @ [Resume 1 (1 / 2) 0]) new_plant of
      None \<Rightarrow> False
    | Some s \<Rightarrow>
        map_option pc (products s 1) = Some (Ret 0) \<and>
        users (resource (stations s 0)) = [2] \<and>
        length (users (resource (stations s 0))) = 1)"
  by (simp add: contended_def before_acquire_def sim_defs)

subsection \<open>Busy time\<close>

lemma exclusive_station:
  assumes ok: "holders_ok s" and ro: "res_ok s"
    and P: "products s p = Some P" "holds_station (pc P) j"
    and Q: "products s q = Some Q" "holds_station (pc Q) j"
  shows "p = q"
proof -
  from holders_user [OF ok P] holders_user [OF ok Q]
  have m: "p \<in> set (users (resource (stations s j)))" "q \<in> set (users (resource (stations s j)))" .
  from ro have "length (users (resource (stations s j))) \<le> 1" by (simp add: res_ok_def)
  then obtain x where "users (resource (stations s j)) = [] \<or> users (resource (stations s j)) = [x]"
    by (cases "users (resource (stations s j))") auto
  with m show ?thesis by auto
qed

lemma product_return_stats:
  assumes "product_return p P j u s = Some s'"
  shows "ocupacion_estaciones (stats s') = ocupacion_estaciones (stats s)"
    "uso_dispositivo_suministro (stats s') = uso_dispositivo_suministro (stats s)"
  using assms
  by (auto simp: product_return_def Let_def dest: product_loop_frame split: if_splits)

text \<open>A segment of product \<open>p\<close> that does not complete a processing delay.\<close>

lemma time_pc:
  assumes ok: "time_ok s" and P': "products s' = (products s)(p \<mapsto> P')"
    and n: "now s \<le> now s'" "now s' \<le> horizon"
    and oc: "ocupacion_estaciones (stats s') = ocupacion_estaciones (stats s)"
    and us: "uso_dispositivo_suministro (stats s) \<le> uso_dispositivo_suministro (stats s')"
    and w: "\<And>j t0 d. pc P' = Work j t0 d \<Longrightarrow>
              ocupacion_estaciones (stats s) j \<le> t0 \<and> 0 \<le> d"
  shows "time_ok s'"
  unfolding time_ok_def
proof (intro conjI allI impI)
  show "now s' \<le> horizon" by (rule n)
next
  fix j
  from ok have "0 \<le> ocupacion_estaciones (stats s) j"
    "ocupacion_estaciones (stats s) j \<le> now s" by (simp_all add: time_ok_def)
  with n show "0 \<le> ocupacion_estaciones (stats s') j"
    "ocupacion_estaciones (stats s') j \<le> now s'" by (simp_all add: oc)
next
  fix q Q j t0 d
  assume Q: "products s' q = Some Q" "pc Q = Work j t0 d"
  have "ocupacion_estaciones (stats s) j \<le> t0 \<and> 0 \<le> d"
  proof (cases "q = p")
    case True
    with Q have "pc P' = Work j t0 d" by (simp add: P')
    then show ?thesis by (rule w)
  next
    case False
    with Q have "products s q = Some Q" by (simp add: P')
    with ok Q(2) show ?thesis unfolding time_ok_def by blast
  qed
  then show "ocupacion_estaciones (stats s') j \<le> t0" "0 \<le> d" by (simp_all add: oc)
next
  from ok have "0 \<le> uso_dispositivo_suministro (stats s)" by (simp add: time_ok_def)
  with us show "0 \<le> uso_dispositivo_suministro (stats s')" by simp
qed

lemma time_work:
  assumes tk: "time_ok s" and ok: "holders_ok s" and ro: "res_ok s"
    and P: "products s p = Some P" and c: "pc P = Work j t0 d"
    and f: "fires (t0 + d) s"
    and P': "products s' = (products s)(p \<mapsto> P')"
    and c': "pc P' = Ret j \<or> (\<exists>t. pc P' = Repair j t)"
    and n: "now s' = t0 + d"
    and oc: "ocupacion_estaciones (stats s') =
               (ocupacion_estaciones (stats s))(j := ocupacion_estaciones (stats s) j + d)"
    and us: "uso_dispositivo_suministro (stats s') = uso_dispositivo_suministro (stats s)"
  shows "time_ok s'"
  unfolding time_ok_def
proof (intro conjI allI impI)
  from tk P c have w: "ocupacion_estaciones (stats s) j \<le> t0" "0 \<le> d"
    unfolding time_ok_def by blast+
  from f have fn: "now s \<le> t0 + d" "t0 + d < horizon" by (simp_all add: fires_def)
  show "now s' \<le> horizon" using fn n by simp
  {
    fix i
    from tk have o: "0 \<le> ocupacion_estaciones (stats s) i"
      "ocupacion_estaciones (stats s) i \<le> now s" by (simp_all add: time_ok_def)
    show "0 \<le> ocupacion_estaciones (stats s') i" using o w by (cases "i = j") (auto simp: oc)
    show "ocupacion_estaciones (stats s') i \<le> now s'"
      using o w fn by (cases "i = j") (auto simp: oc n)
  }
  {
    fix q Q i u0 e
    assume Q: "products s' q = Some Q" "pc Q = Work i u0 e"
    have qp: "q \<noteq> p" using Q c' by (auto simp: P')
    with Q have Q0: "products s q = Some Q" by (simp add: P')
    with tk Q(2) have v: "ocupacion_estaciones (stats s) i \<le> u0" "0 \<le> e"
      unfolding time_ok_def by blast+
    have "i \<noteq> j"
    proof
      assume "i = j"
      with Q(2) c have "holds_station (pc Q) j" "holds_station (pc P) j" by simp_all
      from exclusive_station [OF ok ro P this(2) Q0 this(1)] qp show False by simp
    qed
    with v show "ocupacion_estaciones (stats s') i \<le> u0" "0 \<le> e" by (simp_all add: oc)
  }
  from tk show "0 \<le> uso_dispositivo_suministro (stats s')" by (simp add: time_ok_def us)
qed

lemma time_resume:
  assumes tk: "time_ok s" and ok: "holders_ok s" and ro: "res_ok s"
    and P: "products s p = Some P" and re: "resume p P x y s = Some s'"
  shows "time_ok s'"
proof -
  from tk have h: "now s \<le> horizon" and oj: "\<And>j. ocupacion_estaciones (stats s) j \<le> now s"
    by (simp_all add: time_ok_def)
  show ?thesis
  proof (cases "pc P")
    case Init
    with re have pl: "product_loop p P s = Some s'" by (simp add: resume_def)
    from product_loop_pc [OF pl] obtain c where
      c: "products s' = (products s)(p \<mapsto> P\<lparr>pc := c\<rparr>)" "c = Done \<or> (\<exists>j. c = Call j)" by blast
    show ?thesis
      by (rule time_pc [OF tk c(1)]) (use c(2) h product_loop_frame [OF pl] in auto)
  next
    case (Call j)
    with re have s': "s' = set_pc p (Req j)
        (upd_station j (\<lambda>w. w\<lparr>resource := request p (resource w)\<rparr>) s)"
      by (simp add: resume_def)
    show ?thesis
      by (rule time_pc [OF tk, of s' p "P\<lparr>pc := Req j\<rparr>"]) (use h in \<open>simp_all add: s' P\<close>)
  next
    case (Req j)
    with re have s': "s' = station_body p j x s"
      by (auto simp: resume_def split: if_splits)
    show ?thesis
    proof (cases "raw_material (stations s j) \<le> 0")
      case True
      show ?thesis
        by (rule time_pc [OF tk, of s' p "P\<lparr>pc := CallRestock j\<rparr>"])
          (use True h in \<open>simp_all add: s' P station_body_def\<close>)
    next
      case False
      show ?thesis
        by (rule time_pc [OF tk, of s' p "P\<lparr>pc := Work j (now s) (max 0 x)\<rparr>"])
          (use False h oj in \<open>simp_all add: s' P station_body_def Let_def\<close>)
    qed
  next
    case (CallRestock j)
    with re have s': "s' = set_pc p (ReqPool j) (s\<lparr>restockers := request p (restockers s)\<rparr>)"
      by (simp add: resume_def)
    show ?thesis
      by (rule time_pc [OF tk, of s' p "P\<lparr>pc := ReqPool j\<rparr>"]) (use h in \<open>simp_all add: s' P\<close>)
  next
    case (ReqPool j)
    with re have s': "s' = set_pc p (Restock j (now s + max 0 x))
        (upd_stats (\<lambda>st. st\<lparr>uso_dispositivo_suministro :=
           uso_dispositivo_suministro st + max 0 x\<rparr>) s)"
      by (auto simp: resume_def Let_def split: if_splits)
    show ?thesis
      by (rule time_pc [OF tk, of s' p "P\<lparr>pc := Restock j (now s + max 0 x)\<rparr>"])
        (use h in \<open>simp_all add: s' P\<close>)
  next
    case (Restock j t)
    with re have f: "fires t s" and s': "s' = set_pc p (RestockRet j)
        (upd_station j (\<lambda>w. w\<lparr>raw_material := 25\<rparr>)
          (s\<lparr>now := t, restockers := release p (restockers s)\<rparr>))"
      by (auto simp: resume_def split: if_splits)
    show ?thesis
      by (rule time_pc [OF tk, of s' p "P\<lparr>pc := RestockRet j\<rparr>"])
        (use f in \<open>simp_all add: s' P fires_def\<close>)
  next
    case (RestockRet j)
    with re have s': "s' = station_body p j x s" by (simp add: resume_def)
    show ?thesis
    proof (cases "raw_material (stations s j) \<le> 0")
      case True
      show ?thesis
        by (rule time_pc [OF tk, of s' p "P\<lparr>pc := CallRestock j\<rparr>"])
          (use True h in \<open>simp_all add: s' P station_body_def\<close>)
    next
      case False
      show ?thesis
        by (rule time_pc [OF tk, of s' p "P\<lparr>pc := Work j (now s) (max 0 x)\<rparr>"])
          (use False h oj in \<open>simp_all add: s' P station_body_def Let_def\<close>)
    qed
  next
    case (Work j t0 d)
    with re have f: "fires (t0 + d) s"
      and s': "s' = station_finish p j d x y (s\<lparr>now := t0 + d\<rparr>)"
      by (auto simp: resume_def split: if_splits)
    show ?thesis
    proof (cases "(processed_count (stations s j) + 1) mod 5 = 0 \<and> x < failure_probability j")
      case True
      show ?thesis
        by (rule time_work [OF tk ok ro P Work f, of s' "P\<lparr>pc := Repair j (t0 + d + y)\<rparr>"])
          (use True in \<open>simp_all add: s' P station_finish_def Let_def\<close>)
    next
      case False
      show ?thesis
        by (rule time_work [OF tk ok ro P Work f, of s' "P\<lparr>pc := Ret j\<rparr>"])
          (use False in \<open>auto simp: s' P station_finish_def Let_def\<close>)
    qed
  next
    case (Repair j t)
    with re have f: "fires t s" and s': "s' = set_pc p (Ret j)
        (upd_station j (\<lambda>w. w\<lparr>resource := release p (resource w)\<rparr>) (s\<lparr>now := t\<rparr>))"
      by (auto simp: resume_def split: if_splits)
    show ?thesis
      by (rule time_pc [OF tk, of s' p "P\<lparr>pc := Ret j\<rparr>"])
        (use f in \<open>simp_all add: s' P fires_def\<close>)
  next
    case (Ret j)
    with re have pr: "product_return p P j x s = Some s'"
      by (auto simp: resume_def split: if_splits)
    from product_return_pc [OF pr] obtain P' where
      c: "products s' = (products s)(p \<mapsto> P')" "pc P' = Done \<or> (\<exists>j. pc P' = Call j)" by blast
    show ?thesis
      by (rule time_pc [OF tk c(1)])
        (use c(2) h product_return_frame [OF pr] product_return_stats [OF pr] in auto)
  next
    case Done
    with re show ?thesis by (simp add: resume_def)
  qed
qed

lemma time_arrive:
  assumes tk: "time_ok s" and none: "products s n = None" and f: "fires t s"
    and s': "products s' = (products s)(n \<mapsto> new_product)" "now s' = t"
      "stats s' = stats s"
  shows "time_ok s'"
  unfolding time_ok_def
proof (intro conjI allI impI)
  from f have fn: "now s \<le> t" "t < horizon" by (simp_all add: fires_def)
  show "now s' \<le> horizon" using fn by (simp add: s')
  {
    fix j
    from tk have "0 \<le> ocupacion_estaciones (stats s) j"
      "ocupacion_estaciones (stats s) j \<le> now s" by (simp_all add: time_ok_def)
    with fn show "0 \<le> ocupacion_estaciones (stats s') j"
      "ocupacion_estaciones (stats s') j \<le> now s'" by (simp_all add: s')
  }
  {
    fix q Q j t0 d
    assume Q: "products s' q = Some Q" "pc Q = Work j t0 d"
    then have "q \<noteq> n" by (auto simp: s' new_product_def)
    with Q have "products s q = Some Q" by (simp add: s')
    with tk Q(2) show "ocupacion_estaciones (stats s') j \<le> t0" "0 \<le> d"
      unfolding time_ok_def s' by blast+
  }
  from tk show "0 \<le> uso_dispositivo_suministro (stats s')" by (simp add: time_ok_def s')
qed

lemma time_step:
  assumes "(products_ok s \<and> holders_ok s) \<and> res_ok s \<and> time_ok s" and st: "step l s = Some s'"
  shows "(products_ok s' \<and> holders_ok s') \<and> res_ok s' \<and> time_ok s'"
proof (intro conjI)
  from assms have pk: "products_ok s" and ok: "holders_ok s" and ro: "res_ok s"
    and tk: "time_ok s" by simp_all
  from holders_step [OF _ st] pk ok show "products_ok s'" "holders_ok s'" by simp_all
  show "res_ok s'" by (rule res_ok_step [OF ro st])
  show "time_ok s'"
  proof (cases l)
    case (Arrive d)
    show ?thesis
    proof (cases "arrivals s")
      case GenStart
      with st Arrive have "s' = s\<lparr>arrivals := GenWait (now s + d)\<rparr>"
        by (auto split: if_splits)
      with tk show ?thesis by (simp add: time_ok_def)
    next
      case (GenWait t)
      with st Arrive have f: "fires t s"
        and s': "s' = s\<lparr>now := t, product_count := product_count s + 1,
           products := (products s)(product_count s + 1 \<mapsto> new_product),
           arrivals := GenWait (t + d)\<rparr>"
        by (auto split: if_splits)
      from pk have "products s (product_count s + 1) = None"
        unfolding products_ok_def by (metis Suc_eq_plus1 Suc_n_not_le_n)
      from time_arrive [OF tk this f, of s'] show ?thesis by (simp add: s')
    qed
  next
    case (Resume p x y)
    with st obtain P where P: "products s p = Some P" and re: "resume p P x y s = Some s'"
      by (auto split: option.splits)
    from time_resume [OF tk ok ro P re] show ?thesis .
  qed
qed

lemma time_new: "(products_ok new_plant \<and> holders_ok new_plant) \<and> res_ok new_plant \<and>
    time_ok new_plant"
proof (intro conjI)
  from holders_new show "products_ok new_plant" "holders_ok new_plant" by simp_all
  show "res_ok new_plant" by (rule res_ok_new)
  show "time_ok new_plant"
    by (simp add: time_ok_def new_plant_def new_stats_def horizon_def)
qed

lemma time_ok_run: "run ls new_plant = Some s \<Longrightarrow> time_ok s"
proof -
  assume "run ls new_plant = Some s"
  from run_invariant [of ls new_plant s
      "\<lambda>s. (products_ok s \<and> holders_ok s) \<and> res_ok s \<and> time_ok s", OF this time_new time_step]
  show ?thesis by simp
qed

text \<open>
  Claim C2, as the code has it. After any run the report is computed without error; the
  utilization of each of the six stations, its busy time divided by the horizon of 5000,
  lies between 0 and 1; the utilization of the restocking device, its busy time divided
  by the horizon, is not negative.
\<close>

theorem utilization_bounds:
  assumes "run ls new_plant = Some s"
  shows "\<exists>row. results_row (stats s) = Inr row \<and>
           ocupacion_est row = map (\<lambda>j. ocupacion_estaciones (stats s) j / 5000) [0..<6] \<and>
           (\<forall>u \<in> set (ocupacion_est row). 0 \<le> u \<and> u \<le> 1) \<and>
           ocupacion_dispositivo row = uso_dispositivo_suministro (stats s) / 5000 \<and>
           0 \<le> ocupacion_dispositivo row"
proof -
  from time_ok_run [OF assms] have h: "now s \<le> 5000"
    and o: "\<And>j. 0 \<le> ocupacion_estaciones (stats s) j"
      "\<And>j. ocupacion_estaciones (stats s) j \<le> now s"
    and u: "0 \<le> uso_dispositivo_suministro (stats s)"
    by (simp_all add: time_ok_def horizon_def)
  have "0 \<le> ocupacion_estaciones (stats s) j / 5000 \<and>
        ocupacion_estaciones (stats s) j / 5000 \<le> 1" for j
    using o(1) [of j] o(2) [of j] h by simp
  then have "\<forall>u \<in> set (map (\<lambda>j. ocupacion_estaciones (stats s) j / 5000) [0..<6]).
      0 \<le> u \<and> u \<le> 1"
    by (simp del: upt_rec_numeral)
  with u show ?thesis by (simp add: results_row_eq del: upt_rec_numeral)
qed

end
